theory Spec2Isabelle
  imports Main "HOL-Library.AList"
begin

section \<open>Federated informer: data model\<close>

text \<open>
  The model follows \<^verbatim>\<open>pkg/controller/util/federated_informer.go\<close>.
  Types of other packages are kept abstract: the cluster's \<^verbatim>\<open>Spec\<close> and
  \<^verbatim>\<open>Annotations\<close> are type parameters (\<^verbatim>\<open>reflect.DeepEqual\<close> on them is
  equality), resource clients, stores, controllers and channels are identified by numbers.
\<close>

type_synonym chan = nat
type_synonym store_id = nat
type_synonym controller_id = nat
type_synonym ResourceClient = nat

datatype ConditionStatus = ConditionTrue | ConditionFalse | ConditionUnknown

datatype ClusterConditionType = ClusterReady | OtherConditionType string

record ClusterCondition =
  cond_Type :: ClusterConditionType
  cond_Status :: ConditionStatus

record ('s, 'a) FederatedCluster =
  Name :: string
  Namespace :: string
  Annotations :: 'a
  Spec :: 's
  Conditions :: "ClusterCondition list"

text \<open>
  A value of Go's \<^verbatim>\<open>interface{}\<close> as the caches hold it: nil, a
  \<^verbatim>\<open>*FederatedCluster\<close>, or an object of another type.
\<close>

datatype ('s, 'a) obj = NilObj | ClusterObj "('s, 'a) FederatedCluster" | OtherObj nat

definition is_cluster :: "('s, 'a) obj \<Rightarrow> bool" where
  "is_cluster item = (case item of ClusterObj c \<Rightarrow> True | _ \<Rightarrow> False)"

text \<open>
  Errors: \<^verbatim>\<open>fmt.Errorf("cluster %q not found", clusterName)\<close>,
  \<^verbatim>\<open>fmt.Errorf("wrong data in FederatedInformerImpl cluster store: %v", item)\<close>,
  and the errors that collaborators (the store, the client factory) return.
\<close>

datatype ('s, 'a) error =
  ClusterNotFound string
  | WrongData "('s, 'a) obj"
  | ExternalError string

datatype panic = CloseOfNilChannel | CloseOfClosedChannel | NilPointerDereference

record informer =
  controller :: controller_id
  store :: store_id
  stopChan :: "chan option"

record ClusterLifecycleHandlerFuncs =
  ClusterAvailable :: bool
  ClusterUnavailable :: bool

text \<open>
  What the informer is built with and what its collaborators answer: the fields of
  \<^verbatim>\<open>federatedInformerImpl\<close> that the event handlers never write
  (\<^verbatim>\<open>fedNamespace\<close>, \<^verbatim>\<open>clientFactory\<close>, \<^verbatim>\<open>targetInformerFactory\<close>), the
  \<^verbatim>\<open>clusterLifecycle\<close> pointer the handlers close over (\<open>None\<close> is nil; a field
  is \<open>True\<close> when the function is not nil), and the answers of the
  \<^verbatim>\<open>cache.Store\<close> and \<^verbatim>\<open>cache.Controller\<close> objects:
  \<^verbatim>\<open>List()\<close>, \<^verbatim>\<open>GetByKey(key)\<close> with its three results, \<^verbatim>\<open>HasSynced()\<close>.
\<close>

record ('s, 'a) env =
  fedNamespace :: string
  clientFactory :: "('s, 'a) FederatedCluster \<Rightarrow> ('s, 'a) error + ResourceClient"
  targetInformerFactory :: "('s, 'a) FederatedCluster \<Rightarrow> ResourceClient \<Rightarrow> store_id \<times> controller_id"
  clusterLifecycle :: "ClusterLifecycleHandlerFuncs option"
  store_List :: "store_id \<Rightarrow> ('s, 'a) obj list"
  store_GetByKey :: "store_id \<Rightarrow> string \<Rightarrow> ('s, 'a) obj \<times> bool \<times> ('s, 'a) error option"
  HasSynced :: "controller_id \<Rightarrow> bool"

text \<open>
  What the informer's methods and the handlers observe or change: the cluster informer
  (its \<^verbatim>\<open>stopChan\<close> is nil until \<^verbatim>\<open>Start\<close>), the map
  \<^verbatim>\<open>targetInformers\<close> (an association list with distinct keys; Go iterates a map in
  an unspecified order, the model in the order of the list, and the theorems hold for
  every list), the next channel \<^verbatim>\<open>make(chan struct{})\<close> returns, and the actions
  performed so far, oldest first: the lock and unlock of the methods that write, the
  closes, the writes of the map, the goroutines started and the calls of the lifecycle
  functions.
\<close>

datatype ('s, 'a) action =
  Lock
  | Unlock
  | Close chan
  | MapStore string informer
  | MapDelete string
  | GoRun controller_id chan
  | CallClusterAvailable "('s, 'a) FederatedCluster"
  | CallClusterUnavailable "('s, 'a) FederatedCluster" "('s, 'a) obj list"

record ('s, 'a) state =
  clusterInformer :: informer
  targetInformers :: "(string \<times> informer) list"
  nextChan :: chan
  trace :: "('s, 'a) action list"

section \<open>Federated informer: operations\<close>

definition bind :: "panic + 'x \<Rightarrow> ('x \<Rightarrow> panic + 'y) \<Rightarrow> panic + 'y" where
  "bind r f = (case r of Inl p \<Rightarrow> Inl p | Inr x \<Rightarrow> f x)"

definition act :: "('s, 'a) action list \<Rightarrow> ('s, 'a) state \<Rightarrow> ('s, 'a) state" where
  "act as s = s\<lparr>trace := trace s @ as\<rparr>"

text \<open>\<^verbatim>\<open>IsClusterReady\<close>: the loop over \<^verbatim>\<open>cluster.Status.Conditions\<close>.\<close>

fun IsClusterReady_loop :: "ClusterCondition list \<Rightarrow> bool" where
  "IsClusterReady_loop [] = False"
| "IsClusterReady_loop (condition # rest) =
     (if cond_Type condition = ClusterReady
      then (if cond_Status condition = ConditionTrue then True else IsClusterReady_loop rest)
      else IsClusterReady_loop rest)"

definition IsClusterReady :: "('s, 'a) FederatedCluster \<Rightarrow> bool" where
  "IsClusterReady cluster = IsClusterReady_loop (Conditions cluster)"

text \<open>
  \<^verbatim>\<open>GetUnreadyClusters\<close> and \<^verbatim>\<open>GetReadyClusters\<close>: the loop over
  \<^verbatim>\<open>f.clusterInformer.store.List()\<close> with the result slice as accumulator; an item
  that is not a \<^verbatim>\<open>*FederatedCluster\<close> returns the error at once.
\<close>

fun GetUnreadyClusters_loop ::
  "('s, 'a) obj list \<Rightarrow> ('s, 'a) FederatedCluster list \<Rightarrow> ('s, 'a) error + ('s, 'a) FederatedCluster list" where
  "GetUnreadyClusters_loop [] result = Inr result"
| "GetUnreadyClusters_loop (item # items) result =
     (case item of
        ClusterObj cluster \<Rightarrow>
          (if \<not> IsClusterReady cluster
           then GetUnreadyClusters_loop items (result @ [cluster])
           else GetUnreadyClusters_loop items result)
      | _ \<Rightarrow> Inl (WrongData item))"

definition GetUnreadyClusters ::
  "('s, 'a) env \<Rightarrow> ('s, 'a) state \<Rightarrow> ('s, 'a) error + ('s, 'a) FederatedCluster list" where
  "GetUnreadyClusters e s =
     GetUnreadyClusters_loop (store_List e (store (clusterInformer s))) []"

fun GetReadyClusters_loop ::
  "('s, 'a) obj list \<Rightarrow> ('s, 'a) FederatedCluster list \<Rightarrow> ('s, 'a) error + ('s, 'a) FederatedCluster list" where
  "GetReadyClusters_loop [] result = Inr result"
| "GetReadyClusters_loop (item # items) result =
     (case item of
        ClusterObj cluster \<Rightarrow>
          (if IsClusterReady cluster
           then GetReadyClusters_loop items (result @ [cluster])
           else GetReadyClusters_loop items result)
      | _ \<Rightarrow> Inl (WrongData item))"

definition GetReadyClusters ::
  "('s, 'a) env \<Rightarrow> ('s, 'a) state \<Rightarrow> ('s, 'a) error + ('s, 'a) FederatedCluster list" where
  "GetReadyClusters e s =
     GetReadyClusters_loop (store_List e (store (clusterInformer s))) []"

text \<open>
  \<^verbatim>\<open>getReadyClusterUnlocked\<close>: the key is
  \<^verbatim>\<open>fmt.Sprintf("%s/%s", f.fedNamespace, name)\<close>; the three results are the
  cluster (nil as \<open>None\<close>), the found flag and the error.
\<close>

definition getReadyClusterUnlocked ::
  "('s, 'a) env \<Rightarrow> ('s, 'a) state \<Rightarrow> string \<Rightarrow>
     ('s, 'a) FederatedCluster option \<times> bool \<times> ('s, 'a) error option" where
  "getReadyClusterUnlocked e s name =
     (let key = fedNamespace e @ ''/'' @ name in
      case store_GetByKey e (store (clusterInformer s)) key of
        (obj, exist, err) \<Rightarrow>
          if exist \<and> err = None then
            (case obj of
               ClusterObj cluster \<Rightarrow>
                 (if IsClusterReady cluster then (Some cluster, True, None)
                  else (None, False, None))
             | _ \<Rightarrow> (None, False, Some (WrongData obj)))
          else (None, False, err))"

definition GetReadyCluster ::
  "('s, 'a) env \<Rightarrow> ('s, 'a) state \<Rightarrow> string \<Rightarrow>
     ('s, 'a) FederatedCluster option \<times> bool \<times> ('s, 'a) error option" where
  "GetReadyCluster e s name = getReadyClusterUnlocked e s name"

text \<open>
  \<^verbatim>\<open>getClientForClusterUnlocked\<close>: the pair (client, error) is a sum; the factory's
  result is returned as it is. \<^verbatim>\<open>getReadyClusterUnlocked\<close> returns found only
  together with a cluster, so the branch of a nil cluster that was found is never taken.
\<close>

definition getClientForClusterUnlocked ::
  "('s, 'a) env \<Rightarrow> ('s, 'a) state \<Rightarrow> string \<Rightarrow> ('s, 'a) error + ResourceClient" where
  "getClientForClusterUnlocked e s clusterName =
     (case getReadyClusterUnlocked e s clusterName of
        (cluster, found, err) \<Rightarrow>
          if found \<and> err = None then
            (case cluster of
               Some c \<Rightarrow> clientFactory e c
             | None \<Rightarrow> Inl (ClusterNotFound clusterName))
          else (case err of
                  Some er \<Rightarrow> Inl er
                | None \<Rightarrow> Inl (ClusterNotFound clusterName)))"

definition GetClientForCluster ::
  "('s, 'a) env \<Rightarrow> ('s, 'a) state \<Rightarrow> string \<Rightarrow> ('s, 'a) error + ResourceClient" where
  "GetClientForCluster e s clusterName = getClientForClusterUnlocked e s clusterName"

text \<open>
  \<^verbatim>\<open>NewFederatedInformer\<close>: \<^verbatim>\<open>cache.NewInformer\<close> gives the cluster informer
  its store and controller; the map is empty and no channel exists yet.
\<close>

definition NewFederatedInformer :: "store_id \<Rightarrow> controller_id \<Rightarrow> ('s, 'a) state" where
  "NewFederatedInformer st ctl =
     \<lparr>clusterInformer = \<lparr>controller = ctl, store = st, stopChan = None\<rparr>,
      targetInformers = [],
      nextChan = 0,
      trace = []\<rparr>"

text \<open>
  \<^verbatim>\<open>close(ch)\<close> panics on a nil channel and on a channel that is already closed.
\<close>

definition close_chan :: "chan option \<Rightarrow> ('s, 'a) state \<Rightarrow> panic + ('s, 'a) state" where
  "close_chan ch s =
     (case ch of
        None \<Rightarrow> Inl CloseOfNilChannel
      | Some c \<Rightarrow>
          if Close c \<in> set (trace s) then Inl CloseOfClosedChannel
          else Inr (act [Close c] s))"

definition Start :: "('s, 'a) state \<Rightarrow> ('s, 'a) state" where
  "Start s =
     (let s1 = act [Lock] s;
          ch = nextChan s1;
          s2 = s1\<lparr>clusterInformer := (clusterInformer s1)\<lparr>stopChan := Some ch\<rparr>,
                  nextChan := Suc ch\<rparr>
      in act [GoRun (controller (clusterInformer s2)) ch, Unlock] s2)"

text \<open>
  \<^verbatim>\<open>Stop\<close>: the loop ranges over the map and deletes the key it is at; the
  deferred \<^verbatim>\<open>Unlock\<close> is the last action.
\<close>

fun Stop_loop :: "(string \<times> informer) list \<Rightarrow> ('s, 'a) state \<Rightarrow> panic + ('s, 'a) state" where
  "Stop_loop [] s = Inr s"
| "Stop_loop ((key, informer) # rest) s =
     bind (close_chan (stopChan informer) s)
       (\<lambda>s1. Stop_loop rest
          (act [MapDelete key] (s1\<lparr>targetInformers := AList.delete key (targetInformers s1)\<rparr>)))"

definition Stop :: "('s, 'a) state \<Rightarrow> panic + ('s, 'a) state" where
  "Stop s =
     bind (close_chan (stopChan (clusterInformer s)) (act [Lock] s))
       (\<lambda>s1. bind (Stop_loop (targetInformers s1) s1)
          (\<lambda>s2. Inr (act [Unlock] s2)))"

text \<open>
  \<^verbatim>\<open>addCluster\<close>: the client comes from \<^verbatim>\<open>getClientForClusterUnlocked\<close>, that
  is from the cluster the registry store holds under this name; without a client the
  failure is logged and nothing else happens.
\<close>

definition addCluster ::
  "('s, 'a) env \<Rightarrow> ('s, 'a) FederatedCluster \<Rightarrow> ('s, 'a) state \<Rightarrow> ('s, 'a) state" where
  "addCluster e cluster s =
     (let s1 = act [Lock] s;
          name = Name cluster
      in case getClientForClusterUnlocked e s1 name of
           Inr client \<Rightarrow>
             (case targetInformerFactory e cluster client of
                (st, ctl) \<Rightarrow>
                  let ch = nextChan s1;
                      targetInformer = \<lparr>controller = ctl, store = st, stopChan = Some ch\<rparr>;
                      s2 = s1\<lparr>targetInformers := AList.update name targetInformer (targetInformers s1),
                              nextChan := Suc ch\<rparr>
                  in act [MapStore name targetInformer, GoRun ctl ch, Unlock] s2)
         | Inl err \<Rightarrow> act [Unlock] s1)"

definition deleteCluster ::
  "('s, 'a) FederatedCluster \<Rightarrow> ('s, 'a) state \<Rightarrow> panic + ('s, 'a) state" where
  "deleteCluster cluster s =
     (let s1 = act [Lock] s;
          name = Name cluster
      in bind (case map_of (targetInformers s1) name of
                 Some targetInformer \<Rightarrow> close_chan (stopChan targetInformer) s1
               | None \<Rightarrow> Inr s1)
           (\<lambda>s2. Inr (act [MapDelete name, Unlock]
              (s2\<lparr>targetInformers := AList.delete name (targetInformers s2)\<rparr>))))"

text \<open>
  The read-only store. \<^verbatim>\<open>ListFromCluster\<close> never returns an error;
  \<^verbatim>\<open>getClusterData\<close> (the closure of \<^verbatim>\<open>NewFederatedInformer\<close>) still checks for
  one. The methods that only read take and release the lock around the read and are
  functions of the state.
\<close>

definition ListFromCluster ::
  "('s, 'a) env \<Rightarrow> ('s, 'a) state \<Rightarrow> string \<Rightarrow> ('s, 'a) error + ('s, 'a) obj list" where
  "ListFromCluster e s clusterName =
     (case map_of (targetInformers s) clusterName of
        Some targetInformer \<Rightarrow> Inr ([] @ store_List e (store targetInformer))
      | None \<Rightarrow> Inr [])"

definition getClusterData :: "('s, 'a) env \<Rightarrow> ('s, 'a) state \<Rightarrow> string \<Rightarrow> ('s, 'a) obj list" where
  "getClusterData e s name =
     (case ListFromCluster e s name of
        Inl err \<Rightarrow> []
      | Inr data \<Rightarrow> data)"

definition GetByKey ::
  "('s, 'a) env \<Rightarrow> ('s, 'a) state \<Rightarrow> string \<Rightarrow> string \<Rightarrow> ('s, 'a) obj \<times> bool \<times> ('s, 'a) error option" where
  "GetByKey e s clusterName key =
     (case map_of (targetInformers s) clusterName of
        Some targetInformer \<Rightarrow> store_GetByKey e (store targetInformer) key
      | None \<Rightarrow> (NilObj, False, None))"

text \<open>
  \<^verbatim>\<open>federatedStoreImpl.ClustersSynced\<close>: the closure run under the lock returns
  \<^verbatim>\<open>okSoFar\<close> and the informers to check; \<^verbatim>\<open>HasSynced\<close> is asked afterwards.
\<close>

fun informersToCheck_loop ::
  "(string \<times> informer) list \<Rightarrow> ('s, 'a) FederatedCluster list \<Rightarrow> informer list \<Rightarrow> bool \<times> informer list" where
  "informersToCheck_loop tis [] acc = (True, acc)"
| "informersToCheck_loop tis (cluster # clusters) acc =
     (case map_of tis (Name cluster) of
        Some targetInformer \<Rightarrow> informersToCheck_loop tis clusters (acc @ [targetInformer])
      | None \<Rightarrow> (False, []))"

fun HasSynced_loop :: "(controller_id \<Rightarrow> bool) \<Rightarrow> informer list \<Rightarrow> bool" where
  "HasSynced_loop hs [] = True"
| "HasSynced_loop hs (informerToCheck # rest) =
     (if \<not> hs (controller informerToCheck) then False else HasSynced_loop hs rest)"

definition ClustersSynced ::
  "('s, 'a) env \<Rightarrow> ('s, 'a) state \<Rightarrow> ('s, 'a) FederatedCluster list \<Rightarrow> bool" where
  "ClustersSynced e s clusters =
     (case (if length (targetInformers s) \<noteq> length clusters then (False, [])
            else informersToCheck_loop (targetInformers s) clusters []) of
        (okSoFar, informersToCheck) \<Rightarrow>
          if \<not> okSoFar then False else HasSynced_loop (HasSynced e) informersToCheck)"

text \<open>
  The handlers \<^verbatim>\<open>NewFederatedInformer\<close> registers with the cluster informer. A call
  of a lifecycle function is an action of the trace. \<^verbatim>\<open>AddFunc\<close> reads
  \<^verbatim>\<open>curCluster.Namespace\<close> of the nil pointer a failed type assertion leaves.
\<close>

definition DeleteFunc ::
  "('s, 'a) env \<Rightarrow> ('s, 'a) obj \<Rightarrow> ('s, 'a) state \<Rightarrow> panic + ('s, 'a) state" where
  "DeleteFunc e old s =
     (case old of
        ClusterObj oldCluster \<Rightarrow>
          (case clusterLifecycle e of
             None \<Rightarrow> Inl NilPointerDereference
           | Some lc \<Rightarrow>
               let data = (if ClusterUnavailable lc then getClusterData e s (Name oldCluster) else [])
               in bind (deleteCluster oldCluster s)
                    (\<lambda>s1. Inr (if ClusterUnavailable lc
                                then act [CallClusterUnavailable oldCluster data] s1 else s1)))
      | _ \<Rightarrow> Inr s)"

definition AddFunc ::
  "('s, 'a) env \<Rightarrow> ('s, 'a) obj \<Rightarrow> ('s, 'a) state \<Rightarrow> panic + ('s, 'a) state" where
  "AddFunc e cur s =
     (case cur of
        ClusterObj curCluster \<Rightarrow>
          if IsClusterReady curCluster then
            (let s1 = addCluster e curCluster s
             in case clusterLifecycle e of
                  None \<Rightarrow> Inl NilPointerDereference
                | Some lc \<Rightarrow>
                    Inr (if ClusterAvailable lc then act [CallClusterAvailable curCluster] s1 else s1))
          else Inr s
      | _ \<Rightarrow> Inl NilPointerDereference)"

definition UpdateFunc ::
  "('s, 'a) env \<Rightarrow> ('s, 'a) obj \<Rightarrow> ('s, 'a) obj \<Rightarrow> ('s, 'a) state \<Rightarrow> panic + ('s, 'a) state" where
  "UpdateFunc e old cur s =
     (case old of
        ClusterObj oldCluster \<Rightarrow>
          (case cur of
             ClusterObj curCluster \<Rightarrow>
               if IsClusterReady oldCluster \<noteq> IsClusterReady curCluster
                  \<or> Spec oldCluster \<noteq> Spec curCluster
                  \<or> Annotations oldCluster \<noteq> Annotations curCluster
               then
                 (case clusterLifecycle e of
                    None \<Rightarrow> Inl NilPointerDereference
                  | Some lc \<Rightarrow>
                      let data = (if ClusterUnavailable lc
                                  then getClusterData e s (Name oldCluster) else [])
                      in bind (deleteCluster oldCluster s)
                           (\<lambda>s1. let s2 = (if ClusterUnavailable lc
                                            then act [CallClusterUnavailable oldCluster data] s1
                                            else s1)
                                 in if IsClusterReady curCluster then
                                      (let s3 = addCluster e curCluster s2
                                       in Inr (if ClusterAvailable lc
                                               then act [CallClusterAvailable curCluster] s3
                                               else s3))
                                    else Inr s2))
               else Inr s
           | _ \<Rightarrow> Inr s)
      | _ \<Rightarrow> Inr s)"

text \<open>The events of the cluster registry watch and the handler each one reaches.\<close>

datatype ('s, 'a) event =
  AddEvent "('s, 'a) obj"
  | UpdateEvent "('s, 'a) obj" "('s, 'a) obj"
  | DeleteEvent "('s, 'a) obj"

fun handle :: "('s, 'a) env \<Rightarrow> ('s, 'a) event \<Rightarrow> ('s, 'a) state \<Rightarrow> panic + ('s, 'a) state" where
  "handle e (AddEvent cur) s = AddFunc e cur s"
| "handle e (UpdateEvent old cur) s = UpdateFunc e old cur s"
| "handle e (DeleteEvent old) s = DeleteFunc e old s"

text \<open>
  A run of the handlers: each event is handled in the environment of its delivery (the
  stores answer differently as time passes); a panic ends the run.
\<close>

fun handle_all ::
  "(('s, 'a) env \<times> ('s, 'a) event) list \<Rightarrow> ('s, 'a) state \<Rightarrow> panic + ('s, 'a) state" where
  "handle_all [] s = Inr s"
| "handle_all ((e, ev) # rest) s = bind (handle e ev s) (handle_all rest)"

subsection \<open>The cluster registry cache\<close>

text \<open>
  The cluster informer's store and controller are built by \<^verbatim>\<open>cache.NewInformer\<close> of
  client-go, which is not part of the repository. Its contract, as the handlers rely on
  it: the store is keyed by \<^verbatim>\<open>MetaNamespaceKeyFunc\<close> (namespace, a slash, name; the
  name alone when the namespace is empty), a delta is applied to the store first and the
  handler is called afterwards, and \<^verbatim>\<open>GetByKey\<close> of this store returns no error.
  The registry is the association list of the keys and the objects stored.
\<close>

definition MetaNamespaceKeyFunc :: "('s, 'a) FederatedCluster \<Rightarrow> string" where
  "MetaNamespaceKeyFunc c =
     (if Namespace c = [] then Name c else Namespace c @ ''/'' @ Name c)"

fun store_after ::
  "('s, 'a) event \<Rightarrow> (string \<times> ('s, 'a) obj) list \<Rightarrow> (string \<times> ('s, 'a) obj) list" where
  "store_after (AddEvent cur) reg =
     (case cur of ClusterObj c \<Rightarrow> AList.update (MetaNamespaceKeyFunc c) cur reg | _ \<Rightarrow> reg)"
| "store_after (UpdateEvent old cur) reg =
     (case cur of ClusterObj c \<Rightarrow> AList.update (MetaNamespaceKeyFunc c) cur reg | _ \<Rightarrow> reg)"
| "store_after (DeleteEvent old) reg =
     (case old of ClusterObj c \<Rightarrow> AList.delete (MetaNamespaceKeyFunc c) reg | _ \<Rightarrow> reg)"

definition with_registry ::
  "('s, 'a) env \<Rightarrow> store_id \<Rightarrow> (string \<times> ('s, 'a) obj) list \<Rightarrow> ('s, 'a) env" where
  "with_registry e sid reg =
     e\<lparr>store_List := (store_List e)(sid := map snd reg),
       store_GetByKey := (store_GetByKey e)
         (sid := (\<lambda>key. case map_of reg key of
                           Some item \<Rightarrow> (item, True, None)
                         | None \<Rightarrow> (NilObj, False, None)))\<rparr>"

text \<open>
  The deliveries of a sequence of registry events to the handlers, from a registry
  cache with the contents \<open>reg\<close>.
\<close>

fun deliveries ::
  "('s, 'a) env \<Rightarrow> store_id \<Rightarrow> (string \<times> ('s, 'a) obj) list \<Rightarrow> ('s, 'a) event list \<Rightarrow>
     (('s, 'a) env \<times> ('s, 'a) event) list" where
  "deliveries e sid reg [] = []"
| "deliveries e sid reg (ev # evs) =
     (with_registry e sid (store_after ev reg), ev) # deliveries e sid (store_after ev reg) evs"

text \<open>
  The event sequences a watch of the registry namespace \<open>ns\<close> delivers for each name:
  an add of a name the cache does not hold, updates whose old object is the one the
  cache holds and whose new object has the same name, a delete of a name the cache
  holds; every object is a cluster of the namespace.
\<close>

fun wf_event :: "string \<Rightarrow> (string \<times> ('s, 'a) obj) list \<Rightarrow> ('s, 'a) event \<Rightarrow> bool" where
  "wf_event ns reg (AddEvent (ClusterObj c)) =
     (Namespace c = ns \<and> map_of reg (MetaNamespaceKeyFunc c) = None)"
| "wf_event ns reg (UpdateEvent (ClusterObj old) (ClusterObj cur)) =
     (Namespace old = ns \<and> Namespace cur = ns \<and> Name cur = Name old
      \<and> map_of reg (MetaNamespaceKeyFunc old) = Some (ClusterObj old))"
| "wf_event ns reg (DeleteEvent (ClusterObj old)) =
     (Namespace old = ns \<and> map_of reg (MetaNamespaceKeyFunc old) \<noteq> None)"
| "wf_event ns reg _ = False"

fun wf_events :: "string \<Rightarrow> (string \<times> ('s, 'a) obj) list \<Rightarrow> ('s, 'a) event list \<Rightarrow> bool" where
  "wf_events ns reg [] = True"
| "wf_events ns reg (ev # evs) = (wf_event ns reg ev \<and> wf_events ns (store_after ev reg) evs)"

text \<open>
  What an event reports about the cluster named \<open>n\<close>: ready or not when it adds or
  updates that cluster, not ready when it deletes it, nothing otherwise. The clusters
  reported ready are those whose most recent report says so.
\<close>

fun reports :: "('s, 'a) event \<Rightarrow> string \<Rightarrow> bool option" where
  "reports (AddEvent (ClusterObj c)) n = (if Name c = n then Some (IsClusterReady c) else None)"
| "reports (UpdateEvent old (ClusterObj c)) n = (if Name c = n then Some (IsClusterReady c) else None)"
| "reports (DeleteEvent (ClusterObj c)) n = (if Name c = n then Some False else None)"
| "reports _ n = None"

definition reported_ready :: "('s, 'a) event list \<Rightarrow> string \<Rightarrow> bool" where
  "reported_ready evs n =
     fold (\<lambda>ev b. case reports ev n of Some r \<Rightarrow> r | None \<Rightarrow> b) evs False"

subsection \<open>The states of a started informer\<close>

text \<open>
  The invariant of the states that the handlers reach from a started informer: the keys
  of the map are distinct, the cluster informer and every entry own a channel that was
  made, is open and is owned by nothing else, and no channel was closed twice.
\<close>

definition state_ok :: "('s, 'a) state \<Rightarrow> bool" where
  "state_ok s \<longleftrightarrow>
     distinct (map fst (targetInformers s)) \<and>
     (\<exists>c0. stopChan (clusterInformer s) = Some c0 \<and> c0 < nextChan s \<and> Close c0 \<notin> set (trace s)) \<and>
     (\<forall>k i. map_of (targetInformers s) k = Some i \<longrightarrow>
        (\<exists>c. stopChan i = Some c \<and> c < nextChan s \<and> Close c \<notin> set (trace s)
           \<and> stopChan (clusterInformer s) \<noteq> Some c)) \<and>
     (\<forall>k k' i i'. map_of (targetInformers s) k = Some i \<and> map_of (targetInformers s) k' = Some i'
        \<and> stopChan i = stopChan i' \<longrightarrow> k = k') \<and>
     (\<forall>c. Close c \<in> set (trace s) \<longrightarrow> c < nextChan s) \<and>
     (\<forall>c. count_list (trace s) (Close c) \<le> 1)"

text \<open>
  The states of a started informer: the state after \<^verbatim>\<open>Start\<close>, the states the
  handlers return for any event in any environment, and, since Go does not fix the order
  in which a map is iterated, the same state with the entries of the map in any order.
\<close>

inductive reachable :: "('s, 'a) state \<Rightarrow> bool" where
  start: "reachable (Start (NewFederatedInformer st ctl))"
| step: "reachable s \<Longrightarrow> handle e ev s = Inr s' \<Longrightarrow> reachable s'"
| order: "reachable s \<Longrightarrow> distinct (map fst tis) \<Longrightarrow> set tis = set (targetInformers s) \<Longrightarrow>
     reachable (s\<lparr>targetInformers := tis\<rparr>)"

text \<open>
  Notions of the proofs about the registry cache of the namespace \<open>ns\<close>: the key of a
  name, a cache that holds clusters of the namespace under their keys, the names the
  cache holds as ready, and a state whose map has an entry for exactly these names.
\<close>

definition registry_key :: "string \<Rightarrow> string \<Rightarrow> string" where
  "registry_key ns n = ns @ ''/'' @ n"




section \<open>Unmanaged dispatcher\<close>

text \<open>
  The model follows the dispatcher file of package \<^verbatim>\<open>dispatch\<close>. An error of a
  member cluster's API is a status error with its reason or another error;
  \<^verbatim>\<open>apierrors.IsNotFound\<close> holds of a status error whose reason is not-found, and
  not of nil.
\<close>

datatype StatusReason = StatusReasonNotFound | StatusReasonOther string

datatype api_error = APIStatusError StatusReason | OtherError string

fun IsNotFound :: "api_error option \<Rightarrow> bool" where
  "IsNotFound None = False"
| "IsNotFound (Some (APIStatusError reason)) = (reason = StatusReasonNotFound)"
| "IsNotFound (Some (OtherError msg)) = False"

text \<open>
  Modelled from the spec: the declaration of \<^verbatim>\<open>util.ReconciliationStatus\<close> is not
  among the sources; the spec lists the outcomes all-ok, error, needs-recheck-meta,
  needs-recheck-resource and already-exists. The closures use \<^verbatim>\<open>StatusAllOK\<close> and
  \<^verbatim>\<open>StatusError\<close> only.
\<close>

datatype ReconciliationStatus =
  StatusAllOK
  | StatusError
  | StatusNeedsRecheckMeta
  | StatusNeedsRecheckResource
  | StatusAlreadyExists

record QualifiedName =
  qn_Namespace :: string
  qn_Name :: string

text \<open>
  \<^verbatim>\<open>unmanagedDispatcherImpl\<close>: \<open>recorder\<close> is \<open>True\<close> when the recorder is not nil.
  The field \<^verbatim>\<open>dispatcher\<close> points to the operation dispatcher, whose code is not
  among the sources: \<^verbatim>\<open>Delete\<close> and \<^verbatim>\<open>RemoveManagedLabel\<close> increment its count of
  initiated operations and hand the closure modelled below to its
  \<^verbatim>\<open>clusterOperation\<close> on a new goroutine.
\<close>

record unmanagedDispatcherImpl =
  targetName :: QualifiedName
  targetKind :: string
  recorder :: bool

datatype failure_reason = DeletionFailed | LabelRemovalFailed

text \<open>
  An object of a member cluster (\<^verbatim>\<open>unstructured.Unstructured\<close>): its namespace, its
  labels and the rest of its content. Objects live in a heap and are passed by address;
  \<^verbatim>\<open>DeepCopy\<close> allocates the next address. An address outside the heap stands for the
  nil pointer.
\<close>

record Unstructured =
  u_Namespace :: string
  u_Labels :: "(string \<times> string) list"
  u_Content :: nat

type_synonym addr = nat

text \<open>
  \<^verbatim>\<open>errors.Wrapf(err, "Failed to "+eventTemplate, operation, targetKind, targetName,
  clusterName)\<close> keeps the error and the four arguments of the message.
\<close>

datatype wrapped_error = Wrapf api_error string string QualifiedName string

datatype effect =
  KlogInfo string string QualifiedName string
  | RecordEvent string string string
  | RemoteDelete string string
  | RemoteUpdate string addr Unstructured
  | HandleError wrapped_error
  | RecordOperationError failure_reason string string api_error

text \<open>
  What the client of a member cluster answers: the error of
  \<^verbatim>\<open>client.Resources(namespace).Delete(name, ...)\<close> and of
  \<^verbatim>\<open>client.Resources(namespace).Update(obj, ...)\<close>, \<open>None\<close> for nil.
\<close>

record ClientResponses =
  Delete_response :: "string \<Rightarrow> string \<Rightarrow> api_error option"
  Update_response :: "string \<Rightarrow> Unstructured \<Rightarrow> api_error option"

definition wrapOperationError ::
  "unmanagedDispatcherImpl \<Rightarrow> api_error \<Rightarrow> string \<Rightarrow> string \<Rightarrow> wrapped_error" where
  "wrapOperationError d err clusterName operation =
     Wrapf err operation (targetKind d) (targetName d) clusterName"

text \<open>
  The closure of \<^verbatim>\<open>Delete\<close>: its effects in order and the status it returns.
\<close>

definition Delete_operation ::
  "unmanagedDispatcherImpl \<Rightarrow> string \<Rightarrow> ClientResponses \<Rightarrow> effect list \<times> ReconciliationStatus" where
  "Delete_operation d clusterName client =
     (let op = ''delete'';
          opContinuous = ''Deleting'';
          logged = (if \<not> recorder d
                    then [KlogInfo opContinuous (targetKind d) (targetName d) clusterName]
                    else [RecordEvent clusterName op opContinuous]);
          called = [RemoteDelete (qn_Namespace (targetName d)) (qn_Name (targetName d))];
          err = Delete_response client (qn_Namespace (targetName d)) (qn_Name (targetName d));
          err1 = (if IsNotFound err then None else err)
      in case err1 of
           Some er \<Rightarrow>
             (logged @ called @
                [if \<not> recorder d then HandleError (wrapOperationError d er clusterName op)
                 else RecordOperationError DeletionFailed clusterName op er],
              StatusError)
         | None \<Rightarrow> (logged @ called, StatusAllOK))"

text \<open>
  The closure of \<^verbatim>\<open>RemoveManagedLabel\<close>. \<^verbatim>\<open>util.RemoveManagedLabel\<close> is not among
  the sources; it is the parameter \<open>strip\<close>, a change of the object it is handed.
\<close>

definition RemoveManagedLabel_operation ::
  "(Unstructured \<Rightarrow> Unstructured) \<Rightarrow> unmanagedDispatcherImpl \<Rightarrow> string \<Rightarrow> addr \<Rightarrow>
     ClientResponses \<Rightarrow> Unstructured list \<Rightarrow>
     panic + (Unstructured list \<times> effect list \<times> ReconciliationStatus)" where
  "RemoveManagedLabel_operation strip d clusterName clusterObj client heap =
     (let op = ''remove managed label from'';
          opContinuous = ''Removing managed label from'';
          logged = (if \<not> recorder d
                    then [KlogInfo opContinuous (targetKind d) (targetName d) clusterName]
                    else [RecordEvent clusterName op opContinuous])
      in if clusterObj < length heap then
           (let updateObj = length heap;
                heap1 = heap @ [heap ! clusterObj];
                heap2 = heap1[updateObj := strip (heap1 ! updateObj)];
                called = [RemoteUpdate (u_Namespace (heap2 ! updateObj)) updateObj (heap2 ! updateObj)];
                err = Update_response client (u_Namespace (heap2 ! updateObj)) (heap2 ! updateObj)
            in case err of
                 Some er \<Rightarrow>
                   Inr (heap2,
                        logged @ called @
                          [if \<not> recorder d then HandleError (wrapOperationError d er clusterName op)
                           else RecordOperationError LabelRemovalFailed clusterName op er],
                        StatusError)
               | None \<Rightarrow> Inr (heap2, logged @ called, StatusAllOK))
         else Inl NilPointerDereference)"

section \<open>Example inputs\<close>

text \<open>
  A registry namespace with three clusters, two of them ready, and an informer whose
  collaborators succeed.
\<close>

definition example_cluster :: "string \<Rightarrow> ConditionStatus \<Rightarrow> (nat, unit) FederatedCluster" where
  "example_cluster n st =
     \<lparr>Name = n, Namespace = ''fed'', Annotations = (), Spec = 0,
      Conditions = [\<lparr>cond_Type = ClusterReady, cond_Status = st\<rparr>]\<rparr>"

definition example_lifecycle :: ClusterLifecycleHandlerFuncs where
  "example_lifecycle = \<lparr>ClusterAvailable = True, ClusterUnavailable = True\<rparr>"

definition example_env :: "(nat, unit) env" where
  "example_env =
     \<lparr>fedNamespace = ''fed'',
      clientFactory = (\<lambda>c. Inr 7),
      targetInformerFactory = (\<lambda>c client. (length (Name c), length (Name c))),
      clusterLifecycle = Some example_lifecycle,
      store_List = (\<lambda>sid. []),
      store_GetByKey = (\<lambda>sid key. (NilObj, False, None)),
      HasSynced = (\<lambda>ctl. True)\<rparr>"

definition example_events :: "(nat, unit) event list" where
  "example_events =
     [AddEvent (ClusterObj (example_cluster ''a'' ConditionTrue)),
      AddEvent (ClusterObj (example_cluster ''bb'' ConditionTrue)),
      AddEvent (ClusterObj (example_cluster ''ccc'' ConditionFalse))]"

definition example_registry :: "(string \<times> (nat, unit) obj) list" where
  "example_registry =
     [(''fed/a'', ClusterObj (example_cluster ''a'' ConditionTrue)),
      (''fed/bb'', ClusterObj (example_cluster ''bb'' ConditionTrue)),
      (''fed/ccc'', ClusterObj (example_cluster ''ccc'' ConditionFalse))]"

text \<open>An informer whose client factory fails for every cluster.\<close>

definition failing_env :: "(nat, unit) env" where
  "failing_env = example_env\<lparr>clientFactory := (\<lambda>c. Inl (ExternalError ''no configuration''))\<rparr>"

text \<open>A dispatcher without recorder and two member objects.\<close>

definition example_dispatcher :: unmanagedDispatcherImpl where
  "example_dispatcher =
     \<lparr>targetName = \<lparr>qn_Namespace = ''ns'', qn_Name = ''web''\<rparr>,
      targetKind = ''Deployment'',
      recorder = False\<rparr>"

definition example_heap :: "Unstructured list" where
  "example_heap =
     [\<lparr>u_Namespace = ''ns'', u_Labels = [(''kubefed.io/managed'', ''true'')], u_Content = 1\<rparr>,
      \<lparr>u_Namespace = ''ns'', u_Labels = [], u_Content = 2\<rparr>]"

definition example_strip :: "Unstructured \<Rightarrow> Unstructured" where
  "example_strip u = u\<lparr>u_Labels := AList.delete ''kubefed.io/managed'' (u_Labels u)\<rparr>"

definition example_state :: "(nat, unit) state" where
  "example_state =
     \<lparr>clusterInformer = \<lparr>controller = 0, store = 0, stopChan = Some 0\<rparr>,
      targetInformers =
        [(''a'', \<lparr>controller = 1, store = 1, stopChan = Some 1\<rparr>),
         (''bb'', \<lparr>controller = 2, store = 2, stopChan = Some 2\<rparr>)],
      nextChan = 3,
      trace =
        [Lock, GoRun 0 0, Unlock,
         Lock, MapStore ''a'' \<lparr>controller = 1, store = 1, stopChan = Some 1\<rparr>, GoRun 1 1, Unlock,
         CallClusterAvailable (example_cluster ''a'' ConditionTrue),
         Lock, MapStore ''bb'' \<lparr>controller = 2, store = 2, stopChan = Some 2\<rparr>, GoRun 2 2, Unlock,
         CallClusterAvailable (example_cluster ''bb'' ConditionTrue)]\<rparr>"



section \<open>Properties of the federated informer\<close>

text \<open>The example state is the one the example events reach.\<close>

lemma example_reach:
  "handle_all (deliveries example_env 0 [] example_events) (Start (NewFederatedInformer 0 0))
     = Inr example_state"
  by code_simp

subsection \<open>Reading the cluster registry cache\<close>


lemma GetReadyClusters_loop_clusters:
  "GetReadyClusters_loop (map ClusterObj cs) acc = Inr (acc @ filter IsClusterReady cs)"
  by (induction cs arbitrary: acc) simp_all

lemma GetUnreadyClusters_loop_clusters:
  "GetUnreadyClusters_loop (map ClusterObj cs) acc = Inr (acc @ filter (\<lambda>c. \<not> IsClusterReady c) cs)"
  by (induction cs arbitrary: acc) simp_all

lemma GetReadyClusters_loop_wrong:
  "find (\<lambda>item. \<not> is_cluster item) items = Some item \<Longrightarrow>
   GetReadyClusters_loop items acc = Inl (WrongData item)"
  by (induction items arbitrary: acc) (auto simp: is_cluster_def split: obj.splits)

lemma GetUnreadyClusters_loop_wrong:
  "find (\<lambda>item. \<not> is_cluster item) items = Some item \<Longrightarrow>
   GetUnreadyClusters_loop items acc = Inl (WrongData item)"
  by (induction items arbitrary: acc) (auto simp: is_cluster_def split: obj.splits)

lemma find_wrong:
  "\<exists>item \<in> set items. \<forall>c. item \<noteq> ClusterObj c \<Longrightarrow>
   \<exists>item \<in> set items. (\<forall>c. item \<noteq> ClusterObj c) \<and> find (\<lambda>item. \<not> is_cluster item) items = Some item"
proof (induction items)
  case Nil
  then show ?case by simp
next
  case (Cons x xs)
  show ?case
  proof (cases "is_cluster x")
    case True
    then obtain c where "x = ClusterObj c" by (auto simp: is_cluster_def split: obj.splits)
    with Cons True show ?thesis by auto
  next
    case False
    then have "\<forall>c. x \<noteq> ClusterObj c" by (auto simp: is_cluster_def)
    with False show ?thesis by auto
  qed
qed

text \<open>
  Claim C7. When every item of the cluster registry cache is a cluster,
  \<^verbatim>\<open>GetReadyClusters\<close> returns exactly the cached clusters that are ready and
  \<^verbatim>\<open>GetUnreadyClusters\<close> exactly those that are not, each in the order of the cache,
  so the two results partition the cache. When some item is not a cluster, both return
  the data-corruption error for one such item.
\<close>

theorem ready_unready_partition:
  "(store_List e (store (clusterInformer s)) = map ClusterObj cs \<longrightarrow>
      GetReadyClusters e s = Inr (filter IsClusterReady cs) \<and>
      GetUnreadyClusters e s = Inr (filter (\<lambda>c. \<not> IsClusterReady c) cs)) \<and>
   ((\<exists>item \<in> set (store_List e (store (clusterInformer s))). \<forall>c. item \<noteq> ClusterObj c) \<longrightarrow>
      (\<exists>item \<in> set (store_List e (store (clusterInformer s))). (\<forall>c. item \<noteq> ClusterObj c) \<and>
         GetReadyClusters e s = Inl (WrongData item) \<and>
         GetUnreadyClusters e s = Inl (WrongData item)))"
proof (intro conjI impI)
  assume "store_List e (store (clusterInformer s)) = map ClusterObj cs"
  then show "GetReadyClusters e s = Inr (filter IsClusterReady cs)"
    by (simp add: GetReadyClusters_def GetReadyClusters_loop_clusters)
next
  assume "store_List e (store (clusterInformer s)) = map ClusterObj cs"
  then show "GetUnreadyClusters e s = Inr (filter (\<lambda>c. \<not> IsClusterReady c) cs)"
    by (simp add: GetUnreadyClusters_def GetUnreadyClusters_loop_clusters)
next
  assume "\<exists>item \<in> set (store_List e (store (clusterInformer s))). \<forall>c. item \<noteq> ClusterObj c"
  from find_wrong [OF this] obtain item where
    "item \<in> set (store_List e (store (clusterInformer s)))" "\<forall>c. item \<noteq> ClusterObj c"
    "find (\<lambda>item. \<not> is_cluster item) (store_List e (store (clusterInformer s))) = Some item"
    by blast
  then show "\<exists>item \<in> set (store_List e (store (clusterInformer s))). (\<forall>c. item \<noteq> ClusterObj c) \<and>
         GetReadyClusters e s = Inl (WrongData item) \<and>
         GetUnreadyClusters e s = Inl (WrongData item)"
    by (auto simp: GetReadyClusters_def GetUnreadyClusters_def
        GetReadyClusters_loop_wrong GetUnreadyClusters_loop_wrong)
qed


theorem ready_unready_partition_witness:
  "store_List (with_registry example_env 0 example_registry) (store (clusterInformer example_state))
     = map ClusterObj [example_cluster ''a'' ConditionTrue, example_cluster ''bb'' ConditionTrue,
         example_cluster ''ccc'' ConditionFalse] \<and>
   GetReadyClusters (with_registry example_env 0 example_registry) example_state
     = Inr [example_cluster ''a'' ConditionTrue, example_cluster ''bb'' ConditionTrue] \<and>
   GetUnreadyClusters (with_registry example_env 0 example_registry) example_state
     = Inr [example_cluster ''ccc'' ConditionFalse] \<and>
   OtherObj 5 \<in> set (store_List (with_registry example_env 0 ((''x'', OtherObj 5) # example_registry))
     (store (clusterInformer example_state))) \<and>
   (\<exists>item \<in> set (store_List (with_registry example_env 0 ((''x'', OtherObj 5) # example_registry))
        (store (clusterInformer example_state))).
      GetReadyClusters (with_registry example_env 0 ((''x'', OtherObj 5) # example_registry)) example_state
        = Inl (WrongData item) \<and>
      GetUnreadyClusters (with_registry example_env 0 ((''x'', OtherObj 5) # example_registry)) example_state
        = Inl (WrongData item))"
proof -
  let ?e1 = "with_registry example_env 0 example_registry"
  let ?e2 = "with_registry example_env 0 ((''x'', OtherObj 5) # example_registry)"
  let ?cs = "[example_cluster ''a'' ConditionTrue, example_cluster ''bb'' ConditionTrue,
         example_cluster ''ccc'' ConditionFalse]"
  have h1: "store_List ?e1 (store (clusterInformer example_state)) = map ClusterObj ?cs"
    by code_simp
  have r: "filter IsClusterReady ?cs
      = [example_cluster ''a'' ConditionTrue, example_cluster ''bb'' ConditionTrue]"
    "filter (\<lambda>c. \<not> IsClusterReady c) ?cs = [example_cluster ''ccc'' ConditionFalse]"
    by code_simp+
  have h2: "OtherObj 5 \<in> set (store_List ?e2 (store (clusterInformer example_state)))"
    by code_simp
  then have h3: "\<exists>item \<in> set (store_List ?e2 (store (clusterInformer example_state))).
      \<forall>c. item \<noteq> (ClusterObj c :: (nat, unit) obj)"
    by (intro bexI [of _ "OtherObj 5"]) simp_all
  from ready_unready_partition [of ?e1 example_state ?cs] h1 r
  have a: "GetReadyClusters ?e1 example_state
     = Inr [example_cluster ''a'' ConditionTrue, example_cluster ''bb'' ConditionTrue]"
    "GetUnreadyClusters ?e1 example_state = Inr [example_cluster ''ccc'' ConditionFalse]"
    by simp_all
  from ready_unready_partition [of ?e2 example_state ?cs] h3
  have b: "\<exists>item \<in> set (store_List ?e2 (store (clusterInformer example_state))).
      GetReadyClusters ?e2 example_state = Inl (WrongData item) \<and>
      GetUnreadyClusters ?e2 example_state = Inl (WrongData item)"
    by blast
  from h1 a h2 b show ?thesis by blast
qed

text \<open>
  Claim C6. \<^verbatim>\<open>GetClientForCluster\<close> fails with the not-found error when the
  registry cache answers that the cluster's key is absent, and when it holds a cluster
  under the key that is not ready; when it holds a ready cluster the result is the
  client factory's result for that cluster, error or client; a client is returned only
  for a ready cluster of the cache on which the factory succeeds.
\<close>

theorem GetClientForCluster_cases:
  "(\<forall>item. store_GetByKey e (store (clusterInformer s)) (fedNamespace e @ ''/'' @ name)
        = (item, False, None) \<longrightarrow>
      GetClientForCluster e s name = Inl (ClusterNotFound name)) \<and>
   (\<forall>c. store_GetByKey e (store (clusterInformer s)) (fedNamespace e @ ''/'' @ name)
        = (ClusterObj c, True, None) \<and> \<not> IsClusterReady c \<longrightarrow>
      GetClientForCluster e s name = Inl (ClusterNotFound name)) \<and>
   (\<forall>c. store_GetByKey e (store (clusterInformer s)) (fedNamespace e @ ''/'' @ name)
        = (ClusterObj c, True, None) \<and> IsClusterReady c \<longrightarrow>
      GetClientForCluster e s name = clientFactory e c) \<and>
   (\<forall>client. GetClientForCluster e s name = Inr client \<longrightarrow>
      (\<exists>c. store_GetByKey e (store (clusterInformer s)) (fedNamespace e @ ''/'' @ name)
             = (ClusterObj c, True, None)
           \<and> IsClusterReady c \<and> clientFactory e c = Inr client))"
proof -
  obtain item exist err where g:
    "store_GetByKey e (store (clusterInformer s)) (fedNamespace e @ ''/'' @ name) = (item, exist, err)"
    by (cases "store_GetByKey e (store (clusterInformer s)) (fedNamespace e @ ''/'' @ name)")
  show ?thesis
    using g
    by (auto simp: GetClientForCluster_def getClientForClusterUnlocked_def
        getReadyClusterUnlocked_def split: obj.splits option.splits if_splits)
qed

theorem GetClientForCluster_cases_witness:
  "store_GetByKey (with_registry example_env 0 example_registry) (store (clusterInformer example_state))
     (fedNamespace (with_registry example_env 0 example_registry) @ ''/'' @ ''zz'')
     = (NilObj, False, None) \<and>
   GetClientForCluster (with_registry example_env 0 example_registry) example_state ''zz''
     = Inl (ClusterNotFound ''zz'') \<and>
   store_GetByKey (with_registry example_env 0 example_registry) (store (clusterInformer example_state))
     (fedNamespace (with_registry example_env 0 example_registry) @ ''/'' @ ''ccc'')
     = (ClusterObj (example_cluster ''ccc'' ConditionFalse), True, None) \<and>
   \<not> IsClusterReady (example_cluster ''ccc'' ConditionFalse) \<and>
   GetClientForCluster (with_registry example_env 0 example_registry) example_state ''ccc''
     = Inl (ClusterNotFound ''ccc'') \<and>
   store_GetByKey (with_registry example_env 0 example_registry) (store (clusterInformer example_state))
     (fedNamespace (with_registry example_env 0 example_registry) @ ''/'' @ ''a'')
     = (ClusterObj (example_cluster ''a'' ConditionTrue), True, None) \<and>
   IsClusterReady (example_cluster ''a'' ConditionTrue) \<and>
   GetClientForCluster (with_registry example_env 0 example_registry) example_state ''a'' = Inr 7 \<and>
   GetClientForCluster (with_registry failing_env 0 example_registry) example_state ''a''
     = Inl (ExternalError ''no configuration'')"
proof -
  let ?e = "with_registry example_env 0 example_registry"
  let ?f = "with_registry failing_env 0 example_registry"
  let ?sid = "store (clusterInformer example_state)"
  have h1: "store_GetByKey ?e ?sid (fedNamespace ?e @ ''/'' @ ''zz'') = (NilObj, False, None)"
    by code_simp
  have h2: "store_GetByKey ?e ?sid (fedNamespace ?e @ ''/'' @ ''ccc'')
      = (ClusterObj (example_cluster ''ccc'' ConditionFalse), True, None)"
    by code_simp
  have h3: "store_GetByKey ?e ?sid (fedNamespace ?e @ ''/'' @ ''a'')
      = (ClusterObj (example_cluster ''a'' ConditionTrue), True, None)"
    by code_simp
  have h4: "store_GetByKey ?f ?sid (fedNamespace ?f @ ''/'' @ ''a'')
      = (ClusterObj (example_cluster ''a'' ConditionTrue), True, None)"
    by code_simp
  have r: "\<not> IsClusterReady (example_cluster ''ccc'' ConditionFalse)"
    "IsClusterReady (example_cluster ''a'' ConditionTrue)"
    by code_simp+
  have cf: "clientFactory ?e (example_cluster ''a'' ConditionTrue) = Inr 7"
    "clientFactory ?f (example_cluster ''a'' ConditionTrue) = Inl (ExternalError ''no configuration'')"
    by code_simp+
  from GetClientForCluster_cases [of ?e example_state "''zz''"] h1
  have a: "GetClientForCluster ?e example_state ''zz'' = Inl (ClusterNotFound ''zz'')" by blast
  from GetClientForCluster_cases [of ?e example_state "''ccc''"] h2 r(1)
  have b: "GetClientForCluster ?e example_state ''ccc'' = Inl (ClusterNotFound ''ccc'')" by blast
  from GetClientForCluster_cases [of ?e example_state "''a''"] h3 r(2)
  have "GetClientForCluster ?e example_state ''a'' = clientFactory ?e (example_cluster ''a'' ConditionTrue)"
    by blast
  also note cf(1)
  finally have c: "GetClientForCluster ?e example_state ''a'' = Inr 7" .
  from GetClientForCluster_cases [of ?f example_state "''a''"] h4 r(2)
  have "GetClientForCluster ?f example_state ''a'' = clientFactory ?f (example_cluster ''a'' ConditionTrue)"
    by blast
  also note cf(2)
  finally have d: "GetClientForCluster ?f example_state ''a'' = Inl (ExternalError ''no configuration'')" .
  from h1 h2 h3 r a b c d show ?thesis by blast
qed

subsection \<open>The federated store\<close>

lemma informersToCheck_loop_eq:
  "informersToCheck_loop tis clusters acc =
     (if \<forall>c \<in> set clusters. map_of tis (Name c) \<noteq> None
      then (True, acc @ map (\<lambda>c. the (map_of tis (Name c))) clusters)
      else (False, []))"
  by (induction clusters arbitrary: acc) (auto split: option.splits)

lemma HasSynced_loop_eq: "HasSynced_loop hs infs = (\<forall>i \<in> set infs. hs (controller i))"
  by (induction infs) auto

text \<open>
  Claim C4. \<^verbatim>\<open>ClustersSynced(clusters)\<close> of the federated store is true if and only
  if the number of entries of the map equals the length of the list, every cluster named
  in the list has an entry, and the controller of every such entry reports synced.
\<close>

theorem ClustersSynced_iff:
  assumes "distinct (map fst (targetInformers s))"
  shows "ClustersSynced e s clusters \<longleftrightarrow>
     card (fst ` set (targetInformers s)) = length clusters \<and>
     (\<forall>c \<in> set clusters. \<exists>i. map_of (targetInformers s) (Name c) = Some i) \<and>
     (\<forall>c \<in> set clusters. \<forall>i. map_of (targetInformers s) (Name c) = Some i \<longrightarrow> HasSynced e (controller i))"
proof -
  have "card (fst ` set (targetInformers s)) = length (targetInformers s)"
    using assms by (metis distinct_card length_map set_map)
  then show ?thesis
    by (auto simp: ClustersSynced_def informersToCheck_loop_eq HasSynced_loop_eq)
qed

theorem ClustersSynced_iff_witness:
  "distinct (map fst (targetInformers example_state)) \<and>
   ClustersSynced example_env example_state
     [example_cluster ''a'' ConditionTrue, example_cluster ''bb'' ConditionTrue] \<and>
   \<not> ClustersSynced example_env example_state [example_cluster ''a'' ConditionTrue] \<and>
   \<not> ClustersSynced (example_env\<lparr>HasSynced := (\<lambda>ctl. ctl \<noteq> 2)\<rparr>) example_state
     [example_cluster ''a'' ConditionTrue, example_cluster ''bb'' ConditionTrue]"
proof -
  have d: "distinct (map fst (targetInformers example_state))"
    by code_simp
  have tis: "targetInformers example_state =
      [(''a'', \<lparr>controller = 1, store = 1, stopChan = Some 1\<rparr>),
       (''bb'', \<lparr>controller = 2, store = 2, stopChan = Some 2\<rparr>)]"
    by (simp add: example_state_def)
  have n: "Name (example_cluster ''a'' ConditionTrue) = ''a''" "Name (example_cluster ''bb'' ConditionTrue) = ''bb''"
    by (simp_all add: example_cluster_def)
  have a: "ClustersSynced example_env example_state
     [example_cluster ''a'' ConditionTrue, example_cluster ''bb'' ConditionTrue]"
    unfolding ClustersSynced_iff [OF d] by (simp add: tis n example_env_def)
  have b: "\<not> ClustersSynced example_env example_state [example_cluster ''a'' ConditionTrue]"
    unfolding ClustersSynced_iff [OF d] by (simp add: tis n)
  have c: "\<not> ClustersSynced (example_env\<lparr>HasSynced := (\<lambda>ctl. ctl \<noteq> 2)\<rparr>) example_state
     [example_cluster ''a'' ConditionTrue, example_cluster ''bb'' ConditionTrue]"
    unfolding ClustersSynced_iff [OF d] by (simp add: tis n)
  from d a b c show ?thesis by blast
qed

subsection \<open>The invariant of a started informer\<close>

lemma act_simps:
  "targetInformers (act as s) = targetInformers s"
  "clusterInformer (act as s) = clusterInformer s"
  "nextChan (act as s) = nextChan s"
  "trace (act as s) = trace s @ as"
  by (simp_all add: act_def)

lemma bind_simps:
  "bind (Inl p) f = Inl p"
  "bind (Inr x) f = f x"
  by (simp_all add: bind_def)

lemma state_ok_Start: "state_ok (Start (NewFederatedInformer st ctl))"
  by (simp add: state_ok_def Start_def NewFederatedInformer_def act_simps Let_def)

lemma state_ok_act:
  assumes "state_ok s" and "\<forall>c. Close c \<notin> set as"
  shows "state_ok (act as s)"
proof -
  have "count_list as (Close c) = 0" for c
    using assms(2) by (simp add: count_list_0_iff)
  with assms show ?thesis
    by (simp add: state_ok_def act_simps)
qed

lemma state_okI:
  assumes "distinct (map fst (targetInformers s))"
    and "\<exists>c0. stopChan (clusterInformer s) = Some c0 \<and> c0 < nextChan s \<and> Close c0 \<notin> set (trace s)"
    and "\<And>k i. map_of (targetInformers s) k = Some i \<Longrightarrow>
        \<exists>c. stopChan i = Some c \<and> c < nextChan s \<and> Close c \<notin> set (trace s)
           \<and> stopChan (clusterInformer s) \<noteq> Some c"
    and "\<And>k k' i i'. map_of (targetInformers s) k = Some i \<Longrightarrow> map_of (targetInformers s) k' = Some i'
        \<Longrightarrow> stopChan i = stopChan i' \<Longrightarrow> k = k'"
    and "\<And>c. Close c \<in> set (trace s) \<Longrightarrow> c < nextChan s"
    and "\<And>c. count_list (trace s) (Close c) \<le> 1"
  shows "state_ok s"
  unfolding state_ok_def using assms by blast

lemma state_ok_distinct: "state_ok s \<Longrightarrow> distinct (map fst (targetInformers s))"
  by (simp add: state_ok_def)

lemma state_ok_cluster_chan:
  "state_ok s \<Longrightarrow> \<exists>c0. stopChan (clusterInformer s) = Some c0 \<and> c0 < nextChan s \<and> Close c0 \<notin> set (trace s)"
  by (simp add: state_ok_def)

lemma state_ok_entry:
  "state_ok s \<Longrightarrow> map_of (targetInformers s) k = Some i \<Longrightarrow>
     \<exists>c. stopChan i = Some c \<and> c < nextChan s \<and> Close c \<notin> set (trace s)
        \<and> stopChan (clusterInformer s) \<noteq> Some c"
  unfolding state_ok_def by blast

lemma state_ok_inj:
  "state_ok s \<Longrightarrow> map_of (targetInformers s) k = Some i \<Longrightarrow> map_of (targetInformers s) k' = Some i'
     \<Longrightarrow> stopChan i = stopChan i' \<Longrightarrow> k = k'"
  unfolding state_ok_def by blast

lemma state_ok_closed_made: "state_ok s \<Longrightarrow> Close c \<in> set (trace s) \<Longrightarrow> c < nextChan s"
  unfolding state_ok_def by blast

lemma state_ok_count: "state_ok s \<Longrightarrow> count_list (trace s) (Close c) \<le> 1"
  unfolding state_ok_def by blast

lemma deleteCluster_ok:
  assumes ok: "state_ok s"
  shows "\<exists>s'. deleteCluster cluster s = Inr s' \<and> state_ok s'
     \<and> targetInformers s' = AList.delete (Name cluster) (targetInformers s)
     \<and> clusterInformer s' = clusterInformer s
     \<and> nextChan s' = nextChan s
     \<and> trace s' = trace s @ [Lock]
          @ (case map_of (targetInformers s) (Name cluster) of
               Some i \<Rightarrow> [Close (the (stopChan i))] | None \<Rightarrow> [])
          @ [MapDelete (Name cluster), Unlock]"
proof (cases "map_of (targetInformers s) (Name cluster)")
  case None
  define s' where "s' = act [MapDelete (Name cluster), Unlock]
        ((act [Lock] s)\<lparr>targetInformers := AList.delete (Name cluster) (targetInformers s)\<rparr>)"
  have eq: "deleteCluster cluster s = Inr s'"
    using None by (simp add: s'_def deleteCluster_def Let_def act_simps bind_simps)
  have f: "targetInformers s' = AList.delete (Name cluster) (targetInformers s)"
    "clusterInformer s' = clusterInformer s" "nextChan s' = nextChan s"
    "trace s' = trace s @ [Lock, MapDelete (Name cluster), Unlock]"
    by (simp_all add: s'_def act_def)
  have m: "map_of (targetInformers s') k = Some i \<Longrightarrow> map_of (targetInformers s) k = Some i" for k i
    by (simp add: f delete_conv' split: if_splits)
  have "state_ok s'"
  proof (rule state_okI)
    show "distinct (map fst (targetInformers s'))"
      using state_ok_distinct [OF ok] by (simp add: f distinct_delete)
    show "\<exists>c0. stopChan (clusterInformer s') = Some c0 \<and> c0 < nextChan s' \<and> Close c0 \<notin> set (trace s')"
      using state_ok_cluster_chan [OF ok] by (simp add: f)
    show "\<exists>c. stopChan i = Some c \<and> c < nextChan s' \<and> Close c \<notin> set (trace s')
           \<and> stopChan (clusterInformer s') \<noteq> Some c" if "map_of (targetInformers s') k = Some i" for k i
      using state_ok_entry [OF ok m [OF that]] by (simp add: f)
    show "k = k'" if "map_of (targetInformers s') k = Some i" "map_of (targetInformers s') k' = Some i'"
      "stopChan i = stopChan i'" for k k' i i'
      using state_ok_inj [OF ok m [OF that(1)] m [OF that(2)] that(3)] .
    show "c < nextChan s'" if "Close c \<in> set (trace s')" for c
      using that state_ok_closed_made [OF ok, of c] by (simp add: f)
    show "count_list (trace s') (Close c) \<le> 1" for c
      using state_ok_count [OF ok, of c] by (simp add: f)
  qed
  then show ?thesis using eq f None by simp
next
  case (Some i)
  from state_ok_entry [OF ok Some] obtain c where c: "stopChan i = Some c" "c < nextChan s"
    "Close c \<notin> set (trace s)" "stopChan (clusterInformer s) \<noteq> Some c"
    by blast
  define s' where "s' = act [MapDelete (Name cluster), Unlock]
        ((act [Close c] (act [Lock] s))\<lparr>targetInformers := AList.delete (Name cluster) (targetInformers s)\<rparr>)"
  have eq: "deleteCluster cluster s = Inr s'"
    using Some c by (simp add: s'_def deleteCluster_def Let_def act_simps bind_simps close_chan_def)
  have f: "targetInformers s' = AList.delete (Name cluster) (targetInformers s)"
    "clusterInformer s' = clusterInformer s" "nextChan s' = nextChan s"
    "trace s' = trace s @ [Lock, Close c, MapDelete (Name cluster), Unlock]"
    by (simp_all add: s'_def act_def)
  have m: "map_of (targetInformers s') k = Some j \<Longrightarrow> map_of (targetInformers s) k = Some j \<and> k \<noteq> Name cluster" for k j
    by (simp add: f delete_conv' split: if_splits)
  have "state_ok s'"
  proof (rule state_okI)
    show "distinct (map fst (targetInformers s'))"
      using state_ok_distinct [OF ok] by (simp add: f distinct_delete)
    show "\<exists>c0. stopChan (clusterInformer s') = Some c0 \<and> c0 < nextChan s' \<and> Close c0 \<notin> set (trace s')"
      using state_ok_cluster_chan [OF ok] c(4) by (auto simp: f)
    show "\<exists>c. stopChan j = Some c \<and> c < nextChan s' \<and> Close c \<notin> set (trace s')
           \<and> stopChan (clusterInformer s') \<noteq> Some c" if "map_of (targetInformers s') k = Some j" for k j
    proof -
      from m [OF that] have old: "map_of (targetInformers s) k = Some j" and ne: "k \<noteq> Name cluster"
        by simp_all
      from state_ok_entry [OF ok old] obtain c' where c': "stopChan j = Some c'" "c' < nextChan s"
        "Close c' \<notin> set (trace s)" "stopChan (clusterInformer s) \<noteq> Some c'"
        by blast
      have "c' \<noteq> c"
        using state_ok_inj [OF ok old Some] c(1) c'(1) ne by auto
      with c' show ?thesis by (simp add: f)
    qed
    show "k = k'" if "map_of (targetInformers s') k = Some j" "map_of (targetInformers s') k' = Some j'"
      "stopChan j = stopChan j'" for k k' j j'
      using state_ok_inj [OF ok _ _ that(3)] m [OF that(1)] m [OF that(2)] by blast
    show "c' < nextChan s'" if "Close c' \<in> set (trace s')" for c'
      using that state_ok_closed_made [OF ok, of c'] c(2) by (auto simp: f)
    show "count_list (trace s') (Close c') \<le> 1" for c'
      using state_ok_count [OF ok, of c'] c(3) by (auto simp: f count_list_0_iff)
  qed
  then show ?thesis using eq f Some c(1) by simp
qed

lemma getClient_cong:
  "clusterInformer s1 = clusterInformer s \<Longrightarrow>
   getClientForClusterUnlocked e s1 n = getClientForClusterUnlocked e s n"
  by (simp add: getClientForClusterUnlocked_def getReadyClusterUnlocked_def)

lemma addCluster_failure:
  assumes "getClientForClusterUnlocked e s (Name cluster) = Inl err"
  shows "addCluster e cluster s = act [Lock, Unlock] s"
proof -
  have g: "getClientForClusterUnlocked e (act [Lock] s) (Name cluster) = Inl err"
    using assms getClient_cong [of "act [Lock] s" s e "Name cluster"] by (simp add: act_simps)
  show ?thesis unfolding addCluster_def Let_def g by (simp add: act_def)
qed

lemma addCluster_success:
  assumes "getClientForClusterUnlocked e s (Name cluster) = Inr client"
    and "targetInformerFactory e cluster client = (st, ctl)"
  shows "addCluster e cluster s =
     s\<lparr>targetInformers := AList.update (Name cluster)
           \<lparr>controller = ctl, store = st, stopChan = Some (nextChan s)\<rparr> (targetInformers s),
       nextChan := Suc (nextChan s),
       trace := trace s @ [Lock,
          MapStore (Name cluster) \<lparr>controller = ctl, store = st, stopChan = Some (nextChan s)\<rparr>,
          GoRun ctl (nextChan s), Unlock]\<rparr>"
proof -
  have g: "getClientForClusterUnlocked e (act [Lock] s) (Name cluster) = Inr client"
    using assms getClient_cong [of "act [Lock] s" s e "Name cluster"] by (simp add: act_simps)
  show ?thesis unfolding addCluster_def Let_def g using assms(2) by (simp add: act_def)
qed

lemma addCluster_ok:
  assumes ok: "state_ok s"
  shows "state_ok (addCluster e cluster s) \<and> clusterInformer (addCluster e cluster s) = clusterInformer s"
proof (cases "getClientForClusterUnlocked e s (Name cluster)")
  case (Inl err)
  show ?thesis
    unfolding addCluster_failure [OF Inl] using state_ok_act [OF ok, of "[Lock, Unlock]"]
    by (simp add: act_simps)
next
  case (Inr client)
  obtain st ctl where fac: "targetInformerFactory e cluster client = (st, ctl)"
    by (cases "targetInformerFactory e cluster client")
  define new where "new = \<lparr>controller = ctl, store = st, stopChan = Some (nextChan s)\<rparr>"
  define s' where "s' = addCluster e cluster s"
  have f: "targetInformers s' = AList.update (Name cluster) new (targetInformers s)"
    "clusterInformer s' = clusterInformer s" "nextChan s' = Suc (nextChan s)"
    "trace s' = trace s @ [Lock, MapStore (Name cluster) new, GoRun ctl (nextChan s), Unlock]"
    unfolding s'_def new_def addCluster_success [OF Inr fac] by simp_all
  have m: "map_of (targetInformers s') k = Some j \<Longrightarrow>
      (k = Name cluster \<and> j = new) \<or> (k \<noteq> Name cluster \<and> map_of (targetInformers s) k = Some j)" for k j
    by (simp add: f update_conv' split: if_splits)
  have fresh: "stopChan j \<noteq> Some (nextChan s)" if "map_of (targetInformers s) k = Some j" for k j
    using state_ok_entry [OF ok that] by auto
  have "state_ok s'"
  proof (rule state_okI)
    show "distinct (map fst (targetInformers s'))"
      using state_ok_distinct [OF ok] by (simp add: f distinct_update)
    show "\<exists>c0. stopChan (clusterInformer s') = Some c0 \<and> c0 < nextChan s' \<and> Close c0 \<notin> set (trace s')"
      using state_ok_cluster_chan [OF ok] by (auto simp: f)
    show "\<exists>c. stopChan j = Some c \<and> c < nextChan s' \<and> Close c \<notin> set (trace s')
           \<and> stopChan (clusterInformer s') \<noteq> Some c" if "map_of (targetInformers s') k = Some j" for k j
    proof -
      from m [OF that] show ?thesis
      proof
        assume "k = Name cluster \<and> j = new"
        moreover have "Close (nextChan s) \<notin> set (trace s)"
          using state_ok_closed_made [OF ok, of "nextChan s"] by auto
        moreover have "stopChan (clusterInformer s) \<noteq> Some (nextChan s)"
          using state_ok_cluster_chan [OF ok] by auto
        ultimately show ?thesis by (simp add: f new_def)
      next
        assume "k \<noteq> Name cluster \<and> map_of (targetInformers s) k = Some j"
        then have old: "map_of (targetInformers s) k = Some j" by simp
        from state_ok_entry [OF ok old] show ?thesis by (auto simp: f)
      qed
    qed
    show "k = k'" if h: "map_of (targetInformers s') k = Some j" "map_of (targetInformers s') k' = Some j'"
      "stopChan j = stopChan j'" for k k' j j'
    proof -
      consider "k = Name cluster" "k' = Name cluster"
        | "j = new" "map_of (targetInformers s) k' = Some j'"
        | "j' = new" "map_of (targetInformers s) k = Some j"
        | "map_of (targetInformers s) k = Some j" "map_of (targetInformers s) k' = Some j'"
        using m [OF h(1)] m [OF h(2)] by blast
      then show ?thesis
      proof cases
        case 1
        then show ?thesis by simp
      next
        case 2
        with fresh [OF 2(2)] h(3) show ?thesis by (simp add: new_def)
      next
        case 3
        with fresh [OF 3(2)] h(3) show ?thesis by (simp add: new_def)
      next
        case 4
        from state_ok_inj [OF ok 4 h(3)] show ?thesis .
      qed
    qed
    show "c < nextChan s'" if "Close c \<in> set (trace s')" for c
      using that state_ok_closed_made [OF ok, of c] by (auto simp: f)
    show "count_list (trace s') (Close c) \<le> 1" for c
      using state_ok_count [OF ok, of c] by (simp add: f)
  qed
  then show ?thesis by (simp add: s'_def [symmetric] f)
qed

lemma DeleteFunc_cluster:
  "clusterLifecycle e = Some lc \<Longrightarrow> deleteCluster c s = Inr s1 \<Longrightarrow>
   DeleteFunc e (ClusterObj c) s =
     Inr (if ClusterUnavailable lc
          then act [CallClusterUnavailable c (getClusterData e s (Name c))] s1 else s1)"
  by (simp add: DeleteFunc_def bind_simps Let_def)

lemma AddFunc_cluster:
  "clusterLifecycle e = Some lc \<Longrightarrow> IsClusterReady c \<Longrightarrow>
   AddFunc e (ClusterObj c) s =
     Inr (if ClusterAvailable lc then act [CallClusterAvailable c] (addCluster e c s)
          else addCluster e c s)"
  by (simp add: AddFunc_def Let_def)

lemma UpdateFunc_changed:
  "clusterLifecycle e = Some lc \<Longrightarrow> deleteCluster old s = Inr s1 \<Longrightarrow>
   IsClusterReady old \<noteq> IsClusterReady cur \<or> Spec old \<noteq> Spec cur
     \<or> Annotations old \<noteq> Annotations cur \<Longrightarrow>
   UpdateFunc e (ClusterObj old) (ClusterObj cur) s =
     Inr (let s2 = (if ClusterUnavailable lc
                    then act [CallClusterUnavailable old (getClusterData e s (Name old))] s1
                    else s1)
          in if IsClusterReady cur
             then (if ClusterAvailable lc then act [CallClusterAvailable cur] (addCluster e cur s2)
                   else addCluster e cur s2)
             else s2)"
  by (simp add: UpdateFunc_def bind_simps Let_def)


lemma state_ok_call:
  "state_ok s \<Longrightarrow> state_ok (act [CallClusterUnavailable c d] s)"
  "state_ok s \<Longrightarrow> state_ok (act [CallClusterAvailable c] s)"
  by (simp_all add: state_ok_act)

lemma DeleteFunc_ok:
  assumes ok: "state_ok s" and r: "DeleteFunc e old s = Inr s'"
  shows "state_ok s' \<and> clusterInformer s' = clusterInformer s"
proof (cases old)
  case (ClusterObj c)
  from deleteCluster_ok [OF ok, of c] obtain s1 where
    s1: "deleteCluster c s = Inr s1" "state_ok s1" "clusterInformer s1 = clusterInformer s"
    by blast
  show ?thesis
  proof (cases "clusterLifecycle e")
    case None
    with r ClusterObj show ?thesis by (simp add: DeleteFunc_def)
  next
    case (Some lc)
    from r show ?thesis
      unfolding ClusterObj DeleteFunc_cluster [OF Some s1(1)]
      using s1(2,3) state_ok_call(1) [OF s1(2)] by (auto simp: act_simps split: if_splits)
  qed
qed (use assms in \<open>simp_all add: DeleteFunc_def\<close>)

lemma AddFunc_ok:
  assumes ok: "state_ok s" and r: "AddFunc e cur s = Inr s'"
  shows "state_ok s' \<and> clusterInformer s' = clusterInformer s"
proof (cases cur)
  case (ClusterObj c)
  from addCluster_ok [OF ok, of e c] have
    s1: "state_ok (addCluster e c s)" "clusterInformer (addCluster e c s) = clusterInformer s"
    by simp_all
  show ?thesis
  proof (cases "IsClusterReady c")
    case False
    with r ClusterObj ok show ?thesis by (simp add: AddFunc_def)
  next
    case True
    show ?thesis
    proof (cases "clusterLifecycle e")
      case None
      with r ClusterObj True show ?thesis by (simp add: AddFunc_def Let_def)
    next
      case (Some lc)
      from r show ?thesis
        unfolding ClusterObj AddFunc_cluster [OF Some True]
        using s1 state_ok_call(2) [OF s1(1)] by (auto simp: act_simps split: if_splits)
    qed
  qed
qed (use assms in \<open>simp_all add: AddFunc_def\<close>)

lemma UpdateFunc_ok:
  assumes ok: "state_ok s" and r: "UpdateFunc e old cur s = Inr s'"
  shows "state_ok s' \<and> clusterInformer s' = clusterInformer s"
proof (cases old)
  case old: (ClusterObj oldCluster)
  show ?thesis
  proof (cases cur)
    case cur: (ClusterObj curCluster)
    show ?thesis
    proof (cases "IsClusterReady oldCluster \<noteq> IsClusterReady curCluster
        \<or> Spec oldCluster \<noteq> Spec curCluster \<or> Annotations oldCluster \<noteq> Annotations curCluster")
      case False
      with r ok show ?thesis unfolding old cur by (simp add: UpdateFunc_def)
    next
      case True
      from deleteCluster_ok [OF ok, of oldCluster] obtain s1 where
        s1: "deleteCluster oldCluster s = Inr s1" "state_ok s1" "clusterInformer s1 = clusterInformer s"
        by blast
      show ?thesis
      proof (cases "clusterLifecycle e")
        case None
        with r True show ?thesis unfolding old cur by (simp add: UpdateFunc_def)
      next
        case (Some lc)
        define s2 where "s2 = (if ClusterUnavailable lc
                    then act [CallClusterUnavailable oldCluster (getClusterData e s (Name oldCluster))] s1
                    else s1)"
        have s2: "state_ok s2" "clusterInformer s2 = clusterInformer s"
          using s1(2,3) state_ok_call(1) [OF s1(2)] by (simp_all add: s2_def act_simps)
        note a = addCluster_ok [OF s2(1), of e curCluster]
        from r show ?thesis
          unfolding old cur UpdateFunc_changed [OF Some s1(1) True] Let_def s2_def [symmetric]
          using s2 a state_ok_call(2) [of "addCluster e curCluster s2"]
          by (auto simp: act_simps split: if_splits)
      qed
    qed
  qed (use assms old in \<open>simp_all add: UpdateFunc_def\<close>)
qed (use assms in \<open>simp_all add: UpdateFunc_def\<close>)

lemma handle_ok:
  "state_ok s \<Longrightarrow> handle e ev s = Inr s' \<Longrightarrow> state_ok s' \<and> clusterInformer s' = clusterInformer s"
  by (cases ev) (auto dest: AddFunc_ok UpdateFunc_ok DeleteFunc_ok)

lemma handle_all_ok:
  "state_ok s \<Longrightarrow> handle_all des s = Inr s' \<Longrightarrow> state_ok s' \<and> clusterInformer s' = clusterInformer s"
proof (induction des arbitrary: s)
  case Nil
  then show ?case by simp
next
  case (Cons d des)
  obtain e ev where d: "d = (e, ev)" by (cases d)
  show ?case
  proof (cases "handle e ev s")
    case (Inl p)
    with Cons.prems d show ?thesis by (simp add: bind_simps)
  next
    case (Inr s1)
    from handle_ok [OF Cons.prems(1) Inr] Cons.IH [of s1] Cons.prems(2) d Inr
    show ?thesis by (simp add: bind_simps)
  qed
qed

subsection \<open>Stop\<close>

lemma count_list_distinct: "distinct xs \<Longrightarrow> count_list xs x = (if x \<in> set xs then 1 else 0)"
  by (induction xs) auto

lemma count_list_stop_actions:
  "count_list (concat (map (\<lambda>(key, i). [Close (the (stopChan i)), MapDelete key]) tis)) (Close c)
     = count_list (map (\<lambda>(key, i). the (stopChan i)) tis) c"
  by (induction tis) auto

lemma set_stop_actions:
  "Close c \<in> set (concat (map (\<lambda>(key, i). [Close (the (stopChan i)), MapDelete key]) tis))
     \<longleftrightarrow> (\<exists>(key, i) \<in> set tis. the (stopChan i) = c)"
  by (induction tis) auto

lemma Stop_loop_ok:
  assumes "distinct (map fst tis)" and "targetInformers s = tis"
    and "\<And>k i. (k, i) \<in> set tis \<Longrightarrow> \<exists>c. stopChan i = Some c \<and> Close c \<notin> set (trace s)"
    and "distinct (map (\<lambda>(key, i). the (stopChan i)) tis)"
  shows "Stop_loop tis s =
     Inr (s\<lparr>targetInformers := [],
            trace := trace s @ concat (map (\<lambda>(key, i). [Close (the (stopChan i)), MapDelete key]) tis)\<rparr>)"
  using assms
proof (induction tis arbitrary: s)
  case Nil
  then show ?case by simp
next
  case (Cons a rest)
  obtain k i where a: "a = (k, i)" by (cases a)
  from Cons.prems(3) [of k i] a obtain c where c: "stopChan i = Some c" "Close c \<notin> set (trace s)"
    by auto
  define s1 where "s1 = act [MapDelete k]
     ((act [Close c] s)\<lparr>targetInformers := AList.delete k (targetInformers (act [Close c] s))\<rparr>)"
  have step: "Stop_loop (a # rest) s = Stop_loop rest s1"
    using c by (simp add: a close_chan_def bind_simps s1_def)
  have knot: "k \<notin> fst ` set rest"
    using Cons.prems(1) a by auto
  have f: "targetInformers s1 = rest" "trace s1 = trace s @ [Close c, MapDelete k]"
    using Cons.prems(2) knot by (simp_all add: s1_def act_def a)
  have open_rest: "\<exists>c'. stopChan i' = Some c' \<and> Close c' \<notin> set (trace s1)"
    if "(k', i') \<in> set rest" for k' i'
  proof -
    from Cons.prems(3) [of k' i'] that obtain c' where c': "stopChan i' = Some c'" "Close c' \<notin> set (trace s)"
      by auto
    have "the (stopChan i') \<noteq> the (stopChan i)"
      using Cons.prems(4) that a by force
    with c c' show ?thesis by (simp add: f)
  qed
  have "Stop_loop rest s1 = Inr (s1\<lparr>targetInformers := [],
      trace := trace s1 @ concat (map (\<lambda>(key, i). [Close (the (stopChan i)), MapDelete key]) rest)\<rparr>)"
    using Cons.prems(1,4) open_rest by (intro Cons.IH f) (simp_all add: a)
  then show ?case
    unfolding step using c(1) by (simp add: s1_def act_def a)
qed

lemma state_ok_set_entry:
  assumes "state_ok s" and "(k, i) \<in> set (targetInformers s)"
  shows "map_of (targetInformers s) k = Some i"
  using assms state_ok_distinct [of s] by (simp add: map_of_eq_Some_iff)

lemma state_ok_distinct_chans:
  assumes ok: "state_ok s"
  shows "distinct (map (\<lambda>(key, i). the (stopChan i)) (targetInformers s))"
proof -
  have d: "distinct (targetInformers s)"
    using state_ok_distinct [OF ok] by (simp add: distinct_map)
  have "inj_on (\<lambda>(key, i). the (stopChan i)) (set (targetInformers s))"
  proof (rule inj_onI)
    fix x y
    assume x: "x \<in> set (targetInformers s)" and y: "y \<in> set (targetInformers s)"
      and eq: "(case x of (key, i) \<Rightarrow> the (stopChan i)) = (case y of (key, i) \<Rightarrow> the (stopChan i))"
    obtain k i k' i' where xy: "x = (k, i)" "y = (k', i')" by (cases x, cases y)
    have mx: "map_of (targetInformers s) k = Some i" and my: "map_of (targetInformers s) k' = Some i'"
      using x y xy state_ok_set_entry [OF ok] by auto
    from state_ok_entry [OF ok mx] state_ok_entry [OF ok my] eq xy
    have "stopChan i = stopChan i'" by auto
    from state_ok_inj [OF ok mx my this] mx my xy show "x = y" by simp
  qed
  with d show ?thesis by (simp add: distinct_map)
qed

lemma Stop_ok:
  assumes ok: "state_ok s"
  shows "\<exists>c0. stopChan (clusterInformer s) = Some c0 \<and>
     Stop s = Inr (s\<lparr>targetInformers := [],
       trace := trace s @ [Lock, Close c0]
         @ concat (map (\<lambda>(key, i). [Close (the (stopChan i)), MapDelete key]) (targetInformers s))
         @ [Unlock]\<rparr>)"
proof -
  from state_ok_cluster_chan [OF ok] obtain c0 where
    c0: "stopChan (clusterInformer s) = Some c0" "Close c0 \<notin> set (trace s)"
    by blast
  define s1 where "s1 = act [Close c0] (act [Lock] s)"
  have f: "targetInformers s1 = targetInformers s" "trace s1 = trace s @ [Lock, Close c0]"
    by (simp_all add: s1_def act_def)
  have open_all: "\<exists>c. stopChan i = Some c \<and> Close c \<notin> set (trace s1)"
    if "(k, i) \<in> set (targetInformers s)" for k i
    using state_ok_entry [OF ok state_ok_set_entry [OF ok that]] c0(1) by (auto simp: f)
  have loop: "Stop_loop (targetInformers s) s1 =
     Inr (s1\<lparr>targetInformers := [],
       trace := trace s1 @ concat (map (\<lambda>(key, i). [Close (the (stopChan i)), MapDelete key]) (targetInformers s))\<rparr>)"
    using state_ok_distinct [OF ok] f(1) open_all state_ok_distinct_chans [OF ok]
    by (rule Stop_loop_ok)
  have "Stop s = bind (Stop_loop (targetInformers s) s1) (\<lambda>s2. Inr (act [Unlock] s2))"
    using c0 by (simp add: Stop_def close_chan_def act_simps bind_simps s1_def)
  then show ?thesis
    unfolding loop using c0(1) by (simp add: bind_simps s1_def act_def)
qed

lemma map_of_reorder:
  assumes "distinct (map fst xs)" and "distinct (map fst ys)" and "set xs = set ys"
  shows "map_of xs = map_of ys"
proof
  fix k
  show "map_of xs k = map_of ys k"
  proof (cases "map_of ys k")
    case None
    then have "k \<notin> fst ` set ys" by (simp add: map_of_eq_None_iff)
    with assms(3) have "k \<notin> fst ` set xs" by simp
    then have "map_of xs k = None" by (simp add: map_of_eq_None_iff)
    with None show ?thesis by simp
  next
    case (Some v)
    then have "(k, v) \<in> set xs" using assms(3) by (auto dest: map_of_SomeD)
    with assms(1) Some show ?thesis by simp
  qed
qed

lemma state_ok_reorder:
  assumes ok: "state_ok s" and d: "distinct (map fst tis)" and eq: "set tis = set (targetInformers s)"
  shows "state_ok (s\<lparr>targetInformers := tis\<rparr>)"
proof -
  have "map_of tis = map_of (targetInformers s)"
    using d state_ok_distinct [OF ok] eq by (rule map_of_reorder)
  with ok d show ?thesis by (simp add: state_ok_def)
qed

lemma reachable_ok: "reachable s \<Longrightarrow> state_ok s"
proof (induction rule: reachable.induct)
  case (start st ctl)
  show ?case by (rule state_ok_Start)
next
  case (step s e ev s')
  from handle_ok [OF step.IH step.hyps(2)] show ?case by simp
next
  case (order s tis)
  from state_ok_reorder [OF order.IH order.hyps(2,3)] show ?case .
qed

lemma handle_all_reachable:
  "reachable s \<Longrightarrow> handle_all des s = Inr s' \<Longrightarrow> reachable s'"
proof (induction des arbitrary: s)
  case Nil
  then show ?case by simp
next
  case (Cons d des)
  obtain e ev where d: "d = (e, ev)" by (cases d)
  show ?case
  proof (cases "handle e ev s")
    case (Inl p)
    with Cons.prems d show ?thesis by (simp add: bind_simps)
  next
    case (Inr s1)
    from Cons.prems(1) Inr have "reachable s1" by (rule reachable.step)
    from Cons.IH [OF this] Cons.prems(2) d Inr show ?thesis by (simp add: bind_simps)
  qed
qed

lemma example_reachable: "reachable example_state"
  using reachable.start example_reach by (rule handle_all_reachable)

text \<open>
  Claim C3. In every state that the handlers reach from a started informer,
  \<^verbatim>\<open>Stop\<close> returns without a panic and leaves the map empty. Its actions are, in
  this order: the lock, the close of the cluster informer's channel, for every entry the
  close of its channel followed by the deletion of its key, and the unlock last. After
  it the channel of the cluster informer and of every entry has been closed exactly
  once, no channel at all more than once, and a later \<^verbatim>\<open>deleteCluster\<close> closes
  nothing.
\<close>

theorem Stop_closes_each_once:
  assumes reach: "reachable s"
  shows "\<exists>s' c0. Stop s = Inr s' \<and> targetInformers s' = [] \<and>
     stopChan (clusterInformer s) = Some c0 \<and>
     (\<forall>(key, i) \<in> set (targetInformers s). stopChan i \<noteq> None) \<and>
     trace s' = trace s @ [Lock, Close c0]
        @ concat (map (\<lambda>(key, i). [Close (the (stopChan i)), MapDelete key]) (targetInformers s))
        @ [Unlock] \<and>
     count_list (trace s') (Close c0) = 1 \<and>
     (\<forall>(key, i) \<in> set (targetInformers s). count_list (trace s') (Close (the (stopChan i))) = 1) \<and>
     (\<forall>c. count_list (trace s') (Close c) \<le> 1) \<and>
     (\<forall>cluster. \<exists>s''. deleteCluster cluster s' = Inr s'' \<and> targetInformers s'' = [] \<and>
        trace s'' = trace s' @ [Lock, MapDelete (Name cluster), Unlock])"
proof -
  have ok: "state_ok s" using reach by (rule reachable_ok)
  let ?tis = "targetInformers s"
  let ?acts = "concat (map (\<lambda>(key, i). [Close (the (stopChan i)), MapDelete key]) ?tis)"
  let ?chans = "map (\<lambda>(key, i). the (stopChan i)) ?tis"
  from Stop_ok [OF ok] obtain c0 where c0: "stopChan (clusterInformer s) = Some c0"
    and stop: "Stop s = Inr (s\<lparr>targetInformers := [],
       trace := trace s @ [Lock, Close c0] @ ?acts @ [Unlock]\<rparr>)"
    by blast
  define s' where "s' = s\<lparr>targetInformers := [], trace := trace s @ [Lock, Close c0] @ ?acts @ [Unlock]\<rparr>"
  have tr: "trace s' = trace s @ [Lock, Close c0] @ ?acts @ [Unlock]" and tis: "targetInformers s' = []"
    by (simp_all add: s'_def)
  have entry: "\<exists>c. stopChan i = Some c \<and> Close c \<notin> set (trace s) \<and> c \<noteq> c0"
    if "(k, i) \<in> set ?tis" for k i
    using state_ok_entry [OF ok state_ok_set_entry [OF ok that]] c0 by auto
  have c0_open: "Close c0 \<notin> set (trace s)"
    using state_ok_cluster_chan [OF ok] c0 by auto
  have c0_notin: "c0 \<notin> set ?chans"
    using entry by force
  have dist: "distinct ?chans" using ok by (rule state_ok_distinct_chans)
  have cnt: "count_list (trace s') (Close c) =
      count_list (trace s) (Close c) + (if c = c0 then 1 else 0) + count_list ?chans c" for c
    by (simp add: tr count_list_stop_actions)
  have old_closed: "c \<noteq> c0 \<and> c \<notin> set ?chans" if "Close c \<in> set (trace s)" for c
    using that c0_open entry by force
  have n1: "\<forall>(key, i) \<in> set ?tis. stopChan i \<noteq> None"
    using entry by fastforce
  have n2: "count_list (trace s') (Close c0) = 1"
    using c0_open c0_notin by (simp add: cnt count_list_0_iff)
  have n3: "\<forall>(key, i) \<in> set ?tis. count_list (trace s') (Close (the (stopChan i))) = 1"
  proof (clarify)
    fix k i assume m: "(k, i) \<in> set ?tis"
    from entry [OF m] obtain c where c: "stopChan i = Some c" "Close c \<notin> set (trace s)" "c \<noteq> c0"
      by blast
    have "c \<in> set ?chans" using m c(1) by force
    with c dist show "count_list (trace s') (Close (the (stopChan i))) = 1"
      by (simp add: cnt count_list_0_iff count_list_distinct)
  qed
  have n4: "\<forall>c. count_list (trace s') (Close c) \<le> 1"
  proof
    fix c
    show "count_list (trace s') (Close c) \<le> 1"
    proof (cases "Close c \<in> set (trace s)")
      case True
      with old_closed [OF True] state_ok_count [OF ok, of c] show ?thesis
        by (simp add: cnt count_list_0_iff)
    next
      case False
      with c0_notin dist show ?thesis
        by (auto simp: cnt count_list_0_iff count_list_distinct)
    qed
  qed
  have n5: "\<forall>cluster. \<exists>s''. deleteCluster cluster s' = Inr s'' \<and> targetInformers s'' = [] \<and>
        trace s'' = trace s' @ [Lock, MapDelete (Name cluster), Unlock]"
    by (simp add: deleteCluster_def Let_def act_def bind_simps tis)
  from stop c0 n1 n2 n3 n4 n5 tr tis show ?thesis
    unfolding s'_def [symmetric] by blast
qed

theorem Stop_closes_each_once_witness:
  "reachable example_state \<and>
   (\<exists>s'. Stop example_state = Inr s' \<and> targetInformers s' = [] \<and>
      trace s' = trace example_state
        @ [Lock, Close 0, Close 1, MapDelete ''a'', Close 2, MapDelete ''bb'', Unlock] \<and>
      count_list (trace s') (Close 0) = 1 \<and>
      count_list (trace s') (Close 1) = 1 \<and>
      count_list (trace s') (Close 2) = 1)"
proof -
  from Stop_closes_each_once [OF example_reachable] obtain s' c0 where
    s': "Stop example_state = Inr s'" "targetInformers s' = []"
      "stopChan (clusterInformer example_state) = Some c0"
      "trace s' = trace example_state @ [Lock, Close c0]
        @ concat (map (\<lambda>(key, i). [Close (the (stopChan i)), MapDelete key]) (targetInformers example_state))
        @ [Unlock]"
      "count_list (trace s') (Close c0) = 1"
      "\<forall>(key, i) \<in> set (targetInformers example_state). count_list (trace s') (Close (the (stopChan i))) = 1"
    by blast
  have c0: "c0 = 0" using s'(3) by (simp add: example_state_def)
  have tis: "targetInformers example_state =
      [(''a'', \<lparr>controller = 1, store = 1, stopChan = Some 1\<rparr>),
       (''bb'', \<lparr>controller = 2, store = 2, stopChan = Some 2\<rparr>)]"
    by (simp add: example_state_def)
  have tr: "trace s' = trace example_state
        @ [Lock, Close 0, Close 1, MapDelete ''a'', Close 2, MapDelete ''bb'', Unlock]"
    using s'(4) by (simp add: c0 tis)
  have c12: "count_list (trace s') (Close 1) = 1" "count_list (trace s') (Close 2) = 1"
    using s'(6) by (simp_all add: tis)
  from example_reachable s'(1,2) tr s'(5) c12 show ?thesis
    unfolding c0 by blast
qed

text \<open>
  \<^verbatim>\<open>Stop\<close> before \<^verbatim>\<open>Start\<close> closes a nil channel and a second \<^verbatim>\<open>Stop\<close>
  closes the cluster informer's channel again: both panic.
\<close>

lemma Stop_before_Start_panics:
  "Stop (NewFederatedInformer 0 0 :: (nat, unit) state) = Inl CloseOfNilChannel"
  by code_simp

lemma Stop_twice_panics:
  "bind (Stop example_state) Stop = Inl CloseOfClosedChannel"
  by code_simp

subsection \<open>Adding over an entry, and updates\<close>

lemma getClient_ready:
  assumes "store_GetByKey e (store (clusterInformer s)) (fedNamespace e @ ''/'' @ n) = (ClusterObj c, True, None)"
    and "IsClusterReady c"
  shows "getClientForClusterUnlocked e s n = clientFactory e c"
  using assms by (simp add: getClientForClusterUnlocked_def getReadyClusterUnlocked_def)

text \<open>
  Claim C10. In a state reached from a started informer whose map has an entry for the
  cluster's name, when the registry cache holds a ready cluster under that name and the
  client factory succeeds, \<^verbatim>\<open>addCluster\<close> stores a new entry with a new channel
  under the name and performs no close: the channel of the replaced entry stays open,
  no entry of the map owns it any more, and a later \<^verbatim>\<open>Stop\<close> does not close it
  either.
\<close>

theorem addCluster_overwrites_without_close:
  assumes reach: "reachable s"
    and old: "map_of (targetInformers s) (Name cluster) = Some old"
    and reg: "store_GetByKey e (store (clusterInformer s)) (fedNamespace e @ ''/'' @ Name cluster)
                = (ClusterObj c, True, None)"
    and ready: "IsClusterReady c"
    and client: "clientFactory e c = Inr client"
    and fac: "targetInformerFactory e cluster client = (st, ctl)"
  shows "\<exists>ch. stopChan old = Some ch \<and> ch \<noteq> nextChan s \<and> Close ch \<notin> set (trace s) \<and>
     targetInformers (addCluster e cluster s) =
       AList.update (Name cluster) \<lparr>controller = ctl, store = st, stopChan = Some (nextChan s)\<rparr>
         (targetInformers s) \<and>
     map_of (targetInformers (addCluster e cluster s)) (Name cluster) =
       Some \<lparr>controller = ctl, store = st, stopChan = Some (nextChan s)\<rparr> \<and>
     trace (addCluster e cluster s) = trace s @
       [Lock, MapStore (Name cluster) \<lparr>controller = ctl, store = st, stopChan = Some (nextChan s)\<rparr>,
        GoRun ctl (nextChan s), Unlock] \<and>
     Close ch \<notin> set (trace (addCluster e cluster s)) \<and>
     (\<forall>k i. map_of (targetInformers (addCluster e cluster s)) k = Some i \<longrightarrow> stopChan i \<noteq> Some ch) \<and>
     (\<exists>s'. Stop (addCluster e cluster s) = Inr s' \<and> Close ch \<notin> set (trace s'))"
proof -
  have ok: "state_ok s" using reach by (rule reachable_ok)
  let ?new = "\<lparr>controller = ctl, store = st, stopChan = Some (nextChan s)\<rparr>"
  define s1 where "s1 = addCluster e cluster s"
  have cl: "getClientForClusterUnlocked e s (Name cluster) = Inr client"
    using getClient_ready [OF reg ready] client by simp
  have f: "targetInformers s1 = AList.update (Name cluster) ?new (targetInformers s)"
    "trace s1 = trace s @ [Lock, MapStore (Name cluster) ?new, GoRun ctl (nextChan s), Unlock]"
    "clusterInformer s1 = clusterInformer s"
    unfolding s1_def addCluster_success [OF cl fac] by simp_all
  have ok1: "state_ok s1"
    using addCluster_ok [OF ok] by (simp add: s1_def)
  from state_ok_entry [OF ok old] obtain ch where ch: "stopChan old = Some ch" "ch < nextChan s"
    "Close ch \<notin> set (trace s)" "stopChan (clusterInformer s) \<noteq> Some ch"
    by blast
  have m: "map_of (targetInformers s1) (Name cluster) = Some ?new"
    by (simp add: f update_conv')
  have gone: "stopChan i \<noteq> Some ch" if "map_of (targetInformers s1) k = Some i" for k i
  proof (cases "k = Name cluster")
    case True
    with that m ch(2) show ?thesis by auto
  next
    case False
    with that have "map_of (targetInformers s) k = Some i"
      by (simp add: f update_conv')
    from state_ok_inj [OF ok this old] False ch(1) show ?thesis by auto
  qed
  have open1: "Close ch \<notin> set (trace s1)"
    using ch(3) by (simp add: f)
  from Stop_ok [OF ok1] obtain c0 where c0: "stopChan (clusterInformer s1) = Some c0"
    and stop: "Stop s1 = Inr (s1\<lparr>targetInformers := [],
       trace := trace s1 @ [Lock, Close c0]
         @ concat (map (\<lambda>(key, i). [Close (the (stopChan i)), MapDelete key]) (targetInformers s1))
         @ [Unlock]\<rparr>)"
    by blast
  have "c0 \<noteq> ch" using c0 ch(4) by (simp add: f)
  moreover have "the (stopChan i) \<noteq> ch" if "(k, i) \<in> set (targetInformers s1)" for k i
    using gone [OF state_ok_set_entry [OF ok1 that]]
      state_ok_entry [OF ok1 state_ok_set_entry [OF ok1 that]] by auto
  ultimately have "\<exists>s'. Stop s1 = Inr s' \<and> Close ch \<notin> set (trace s')"
    unfolding stop using open1 by (auto simp: set_stop_actions)
  with ch m gone open1 f show ?thesis
    unfolding s1_def [symmetric] by auto
qed

theorem addCluster_overwrites_without_close_witness:
  "reachable example_state \<and>
   map_of (targetInformers example_state) (Name (example_cluster ''a'' ConditionTrue))
     = Some \<lparr>controller = 1, store = 1, stopChan = Some 1\<rparr> \<and>
   store_GetByKey (with_registry example_env 0 example_registry) (store (clusterInformer example_state))
     (fedNamespace (with_registry example_env 0 example_registry) @ ''/''
        @ Name (example_cluster ''a'' ConditionTrue))
     = (ClusterObj (example_cluster ''a'' ConditionTrue), True, None) \<and>
   IsClusterReady (example_cluster ''a'' ConditionTrue) \<and>
   clientFactory (with_registry example_env 0 example_registry) (example_cluster ''a'' ConditionTrue)
     = Inr 7 \<and>
   targetInformerFactory (with_registry example_env 0 example_registry)
     (example_cluster ''a'' ConditionTrue) 7 = (1, 1) \<and>
   map_of (targetInformers (addCluster (with_registry example_env 0 example_registry)
       (example_cluster ''a'' ConditionTrue) example_state)) ''a''
     = Some \<lparr>controller = 1, store = 1, stopChan = Some 3\<rparr> \<and>
   Close 1 \<notin> set (trace (addCluster (with_registry example_env 0 example_registry)
       (example_cluster ''a'' ConditionTrue) example_state)) \<and>
   (\<exists>s'. Stop (addCluster (with_registry example_env 0 example_registry)
       (example_cluster ''a'' ConditionTrue) example_state) = Inr s' \<and> Close 1 \<notin> set (trace s'))"
proof -
  let ?e = "with_registry example_env 0 example_registry"
  let ?c = "example_cluster ''a'' ConditionTrue"
  have h1: "map_of (targetInformers example_state) (Name ?c)
     = Some \<lparr>controller = 1, store = 1, stopChan = Some 1\<rparr>"
    by code_simp
  have h2: "store_GetByKey ?e (store (clusterInformer example_state)) (fedNamespace ?e @ ''/'' @ Name ?c)
     = (ClusterObj ?c, True, None)"
    by code_simp
  have h3: "IsClusterReady ?c" by code_simp
  have h4: "clientFactory ?e ?c = Inr 7" by code_simp
  have h5: "targetInformerFactory ?e ?c 7 = (1, 1)" by code_simp
  have n: "Name ?c = ''a''" "nextChan example_state = 3"
    by (simp_all add: example_cluster_def example_state_def)
  from addCluster_overwrites_without_close [OF example_reachable h1 h2 h3 h4 h5]
  obtain ch where ch: "stopChan \<lparr>controller = 1, store = 1, stopChan = Some 1\<rparr> = Some ch"
    "map_of (targetInformers (addCluster ?e ?c example_state)) (Name ?c) =
       Some \<lparr>controller = 1, store = 1, stopChan = Some (nextChan example_state)\<rparr>"
    "Close ch \<notin> set (trace (addCluster ?e ?c example_state))"
    "\<exists>s'. Stop (addCluster ?e ?c example_state) = Inr s' \<and> Close ch \<notin> set (trace s')"
    by blast
  from ch(1) have "ch = 1" by simp
  with ch(2,3,4) n example_reachable h1 h2 h3 h4 h5 show ?thesis
    by simp
qed






subsection \<open>Entries and ready clusters\<close>

lemma registry_key_inj [simp]: "registry_key ns n = registry_key ns m \<longleftrightarrow> n = m"
  by (simp add: registry_key_def)



















text \<open>
  The other hypotheses are needed as well. A second add of a name that the cache holds
  is not an event sequence of a watch: its cluster is not ready, the handler ignores
  it and the entry stays. Without the lifecycle functions the handler panics. With an
  empty registry namespace the key the informer looks up differs from the key of the
  cache, and no entry is created.
\<close>

lemma second_add_keeps_entry:
  "wf_event ''fed'' [] (AddEvent (ClusterObj (example_cluster ''a'' ConditionTrue))) \<and>
   \<not> wf_events ''fed'' []
       [AddEvent (ClusterObj (example_cluster ''a'' ConditionTrue)),
        AddEvent (ClusterObj (example_cluster ''a'' ConditionFalse))] \<and>
   bind (handle_all (deliveries example_env 0 []
            [AddEvent (ClusterObj (example_cluster ''a'' ConditionTrue)),
             AddEvent (ClusterObj (example_cluster ''a'' ConditionFalse))])
          (Start (NewFederatedInformer 0 0)))
        (\<lambda>s. Inr (map fst (targetInformers s))) = Inr [''a''] \<and>
   \<not> reported_ready
       [AddEvent (ClusterObj (example_cluster ''a'' ConditionTrue)),
        AddEvent (ClusterObj (example_cluster ''a'' ConditionFalse))] ''a''"
  by code_simp

lemma nil_lifecycle_panics:
  "handle_all (deliveries (example_env\<lparr>clusterLifecycle := None\<rparr>) 0 []
       [AddEvent (ClusterObj (example_cluster ''a'' ConditionTrue))])
     (Start (NewFederatedInformer 0 0)) = Inl NilPointerDereference"
  by code_simp

lemma empty_namespace_no_entry:
  "bind (handle_all (deliveries (example_env\<lparr>fedNamespace := []\<rparr>) 0 []
            [AddEvent (ClusterObj ((example_cluster ''a'' ConditionTrue)\<lparr>Namespace := []\<rparr>))])
          (Start (NewFederatedInformer 0 0)))
        (\<lambda>s. Inr (map fst (targetInformers s))) = Inr [] \<and>
   reported_ready [AddEvent (ClusterObj ((example_cluster ''a'' ConditionTrue)\<lparr>Namespace := []\<rparr>))] ''a''"
  by code_simp

section \<open>Properties of the unmanaged dispatcher\<close>

text \<open>
  Claim C8. The closure of \<^verbatim>\<open>Delete\<close> returns all-ok when the remote delete
  answers not-found, and then neither handles nor records an error; for any other error
  it returns the error status after handing the error to the error handler or the
  recorder; without an error it returns all-ok.
\<close>

theorem Delete_not_found_all_ok:
  "(IsNotFound (Delete_response client (qn_Namespace (targetName d)) (qn_Name (targetName d))) \<longrightarrow>
      snd (Delete_operation d clusterName client) = StatusAllOK \<and>
      (\<forall>w. HandleError w \<notin> set (fst (Delete_operation d clusterName client))) \<and>
      (\<forall>r c operation er.
         RecordOperationError r c operation er \<notin> set (fst (Delete_operation d clusterName client)))) \<and>
   (\<forall>er. Delete_response client (qn_Namespace (targetName d)) (qn_Name (targetName d)) = Some er
        \<and> \<not> IsNotFound (Some er) \<longrightarrow>
      snd (Delete_operation d clusterName client) = StatusError \<and>
      last (fst (Delete_operation d clusterName client)) =
        (if \<not> recorder d then HandleError (Wrapf er ''delete'' (targetKind d) (targetName d) clusterName)
         else RecordOperationError DeletionFailed clusterName ''delete'' er)) \<and>
   (Delete_response client (qn_Namespace (targetName d)) (qn_Name (targetName d)) = None \<longrightarrow>
      snd (Delete_operation d clusterName client) = StatusAllOK)"
  by (auto simp: Delete_operation_def Let_def wrapOperationError_def)

theorem Delete_not_found_all_ok_witness:
  "IsNotFound (Delete_response
       \<lparr>Delete_response = (\<lambda>ns n. Some (APIStatusError StatusReasonNotFound)),
        Update_response = (\<lambda>ns u. None)\<rparr>
       (qn_Namespace (targetName example_dispatcher)) (qn_Name (targetName example_dispatcher))) \<and>
   Delete_operation example_dispatcher ''member1''
       \<lparr>Delete_response = (\<lambda>ns n. Some (APIStatusError StatusReasonNotFound)),
        Update_response = (\<lambda>ns u. None)\<rparr>
     = ([KlogInfo ''Deleting'' ''Deployment'' \<lparr>qn_Namespace = ''ns'', qn_Name = ''web''\<rparr> ''member1'',
         RemoteDelete ''ns'' ''web''], StatusAllOK) \<and>
   Delete_response
       \<lparr>Delete_response = (\<lambda>ns n. Some (OtherError ''timeout'')), Update_response = (\<lambda>ns u. None)\<rparr>
       (qn_Namespace (targetName example_dispatcher)) (qn_Name (targetName example_dispatcher))
     = Some (OtherError ''timeout'') \<and>
   \<not> IsNotFound (Some (OtherError ''timeout'')) \<and>
   snd (Delete_operation example_dispatcher ''member1''
       \<lparr>Delete_response = (\<lambda>ns n. Some (OtherError ''timeout'')), Update_response = (\<lambda>ns u. None)\<rparr>)
     = StatusError"
proof -
  let ?nf = "\<lparr>Delete_response = (\<lambda>ns n. Some (APIStatusError StatusReasonNotFound)),
        Update_response = (\<lambda>ns u. None)\<rparr>"
  let ?to = "\<lparr>Delete_response = (\<lambda>ns n. Some (OtherError ''timeout'')), Update_response = (\<lambda>ns u. None)\<rparr>"
  have h1: "IsNotFound (Delete_response ?nf
       (qn_Namespace (targetName example_dispatcher)) (qn_Name (targetName example_dispatcher)))"
    by simp
  have h2: "Delete_response ?to
       (qn_Namespace (targetName example_dispatcher)) (qn_Name (targetName example_dispatcher))
     = Some (OtherError ''timeout'')"
    by simp
  have h3: "\<not> IsNotFound (Some (OtherError ''timeout''))" by simp
  have full: "Delete_operation example_dispatcher ''member1'' ?nf
     = ([KlogInfo ''Deleting'' ''Deployment'' \<lparr>qn_Namespace = ''ns'', qn_Name = ''web''\<rparr> ''member1'',
         RemoteDelete ''ns'' ''web''], StatusAllOK)"
    by (simp add: Delete_operation_def example_dispatcher_def)
  from Delete_not_found_all_ok [of ?nf example_dispatcher "''member1''"] h1
  have a: "snd (Delete_operation example_dispatcher ''member1'' ?nf) = StatusAllOK"
    by blast
  from Delete_not_found_all_ok [of ?to example_dispatcher "''member1''"] h2 h3
  have b: "snd (Delete_operation example_dispatcher ''member1'' ?to) = StatusError"
    by blast
  from h1 h2 h3 full a b show ?thesis by blast
qed

text \<open>
  Claim C9. The closure of \<^verbatim>\<open>RemoveManagedLabel\<close>, called with the address of an
  object: the object at that address and every other object of the heap are as before,
  the only new object is the copy with the label stripped, and the update is issued
  with the address of the copy, never with the address passed in.
\<close>

theorem RemoveManagedLabel_keeps_original:
  assumes "clusterObj < length heap"
  shows "\<exists>heap' effects status.
     RemoveManagedLabel_operation strip d clusterName clusterObj client heap
       = Inr (heap', effects, status) \<and>
     heap' ! clusterObj = heap ! clusterObj \<and>
     take (length heap) heap' = heap \<and>
     heap' = heap @ [strip (heap ! clusterObj)] \<and>
     RemoteUpdate (u_Namespace (strip (heap ! clusterObj))) (length heap) (strip (heap ! clusterObj))
       \<in> set effects \<and>
     (\<forall>ns a u. RemoteUpdate ns a u \<in> set effects \<longrightarrow> a \<noteq> clusterObj) \<and>
     status = (case Update_response client (u_Namespace (strip (heap ! clusterObj)))
                      (strip (heap ! clusterObj)) of
                 None \<Rightarrow> StatusAllOK | Some er \<Rightarrow> StatusError)"
  using assms
  by (auto simp: RemoveManagedLabel_operation_def Let_def nth_append split: option.splits)

theorem RemoveManagedLabel_keeps_original_witness:
  "(0::nat) < length example_heap \<and>
   RemoveManagedLabel_operation example_strip example_dispatcher ''member1'' 0
       \<lparr>Delete_response = (\<lambda>ns n. None), Update_response = (\<lambda>ns u. None)\<rparr> example_heap
     = Inr (example_heap @ [\<lparr>u_Namespace = ''ns'', u_Labels = [], u_Content = 1\<rparr>],
            [KlogInfo ''Removing managed label from'' ''Deployment''
               \<lparr>qn_Namespace = ''ns'', qn_Name = ''web''\<rparr> ''member1'',
             RemoteUpdate ''ns'' 2 \<lparr>u_Namespace = ''ns'', u_Labels = [], u_Content = 1\<rparr>],
            StatusAllOK) \<and>
   (\<exists>heap' effects status.
      RemoveManagedLabel_operation example_strip example_dispatcher ''member1'' 0
          \<lparr>Delete_response = (\<lambda>ns n. None), Update_response = (\<lambda>ns u. None)\<rparr> example_heap
        = Inr (heap', effects, status) \<and>
      heap' ! 0 = \<lparr>u_Namespace = ''ns'', u_Labels = [(''kubefed.io/managed'', ''true'')], u_Content = 1\<rparr>)"
proof -
  let ?cl = "\<lparr>Delete_response = (\<lambda>ns n. None), Update_response = (\<lambda>ns u. None)\<rparr>"
  have h: "(0::nat) < length example_heap" by (simp add: example_heap_def)
  have full: "RemoveManagedLabel_operation example_strip example_dispatcher ''member1'' 0 ?cl example_heap
     = Inr (example_heap @ [\<lparr>u_Namespace = ''ns'', u_Labels = [], u_Content = 1\<rparr>],
            [KlogInfo ''Removing managed label from'' ''Deployment''
               \<lparr>qn_Namespace = ''ns'', qn_Name = ''web''\<rparr> ''member1'',
             RemoteUpdate ''ns'' 2 \<lparr>u_Namespace = ''ns'', u_Labels = [], u_Content = 1\<rparr>],
            StatusAllOK)"
    by (simp add: RemoveManagedLabel_operation_def example_strip_def example_dispatcher_def
        example_heap_def Let_def)
  have z: "example_heap ! 0
      = \<lparr>u_Namespace = ''ns'', u_Labels = [(''kubefed.io/managed'', ''true'')], u_Content = 1\<rparr>"
    by (simp add: example_heap_def)
  from RemoveManagedLabel_keeps_original [OF h, of example_strip example_dispatcher "''member1''" ?cl]
  obtain heap' effects status where
    "RemoveManagedLabel_operation example_strip example_dispatcher ''member1'' 0 ?cl example_heap
        = Inr (heap', effects, status)" "heap' ! 0 = example_heap ! 0"
    by blast
  with h full z show ?thesis by auto
qed

end
